theory Spec2Isabelle
  imports Complex_Main "HOL-Library.Word"
begin

section \<open>Data model of the acceptance test harness\<close>

text \<open>
  The harness is the Go package \<open>test\<close>. Its structs become records, and every
  method becomes a function that takes the parts of the program state it reads and
  returns the parts it writes. What the methods take from outside the package (the
  operating system, the server behind the API, the types declared in other files) is a
  parameter of the function that uses it.

  Relative times are \<open>float64\<close> in the source. As keys of the action table they are
  only compared with \<open>==\<close>, and the table is modelled for an arbitrary key type with HOL
  equality (the not-a-number value, which is unequal to itself, is outside this model).
  Where the source computes with them they are real numbers, and the rounding of the
  machine is a parameter.
\<close>

text \<open>\<open>testing.T\<close>: the failure flag and the lines logged so far.\<close>

record testing_T =
  failed :: bool
  logged :: "string list"

text \<open>\<open>t.Log\<close> appends a line; \<open>t.Error\<close> is \<open>Log\<close> followed by \<open>Fail\<close>. Both return
  to the caller.\<close>

definition Log :: "testing_T \<Rightarrow> string \<Rightarrow> testing_T" where
  "Log T msg = T\<lparr>logged := logged T @ [msg]\<rparr>"

definition Error :: "testing_T \<Rightarrow> string \<Rightarrow> testing_T" where
  "Error T msg = (Log T msg)\<lparr>failed := True\<rparr>"

section \<open>The action table\<close>

text \<open>
  \<open>actions map[float64][]func()\<close>. A key that is not in a Go map reads as the zero
  value of the element type, here the nil slice, and \<open>append\<close> to the nil slice gives a
  one-element slice.
\<close>

type_synonym ('k, 'f) actions = "'k \<rightharpoonup> 'f list"

definition slice_at :: "('k, 'f) actions \<Rightarrow> 'k \<Rightarrow> 'f list" where
  "slice_at m k = (case m k of None \<Rightarrow> [] | Some fs \<Rightarrow> fs)"

text \<open>\<open>NewAcceptanceTest\<close> starts with the empty table.\<close>

definition new_actions :: "('k, 'f) actions" where
  "new_actions = Map.empty"

text \<open>\<open>func (t *AcceptanceTest) Do(at float64, f func())\<close>:
  \<open>t.actions[at] = append(t.actions[at], f)\<close>.\<close>

definition Do :: "('k, 'f) actions \<Rightarrow> 'k \<Rightarrow> 'f \<Rightarrow> ('k, 'f) actions" where
  "Do m tm f = m(tm \<mapsto> slice_at m tm @ [f])"

text \<open>A sequence of calls of \<open>Do\<close>, in program order.\<close>

fun Do_calls :: "('k, 'f) actions \<Rightarrow> ('k \<times> 'f) list \<Rightarrow> ('k, 'f) actions" where
  "Do_calls m [] = m"
| "Do_calls m ((tm, f) # cs) = Do_calls (Do m tm f) cs"

text \<open>The operations a sequence of calls scheduled at one time, in call order.\<close>

definition scheduled_at :: "('k \<times> 'f) list \<Rightarrow> 'k \<Rightarrow> 'f list" where
  "scheduled_at cs k = map snd (filter (\<lambda>c. fst c = k) cs)"

section \<open>The virtual clock\<close>

text \<open>
  \<open>time.Time\<close> is an instant, here a count of nanoseconds (Go's type covers a wider
  range than any test reaches, so the count is unbounded). \<open>time.Duration\<close> is
  \<open>int64\<close> nanoseconds, read signed.
\<close>

type_synonym Time = int
type_synonym Duration = "64 word"

definition Second :: Duration where
  "Second = 1000000000"

definition Millisecond :: Duration where
  "Millisecond = 1000000"

text \<open>\<open>t.Add(d)\<close>.\<close>

definition Time_Add :: "Time \<Rightarrow> Duration \<Rightarrow> Time" where
  "Time_Add t d = t + sint d"

text \<open>\<open>t.Sub(u)\<close>: the difference, saturated at the least and the greatest duration.\<close>

definition Time_Sub :: "Time \<Rightarrow> Time \<Rightarrow> Duration" where
  "Time_Sub t u =
     (if t - u < - (2 ^ 63) then word_of_int (- (2 ^ 63))
      else if 2 ^ 63 \<le> t - u then word_of_int (2 ^ 63 - 1)
      else word_of_int (t - u))"

text \<open>
  A \<open>float64\<close> is a real number here, and the arithmetic of the machine is a parameter:
  \<open>round64\<close> is the rounding that ends every floating-point operation (the exact result
  goes in, the \<open>float64\<close> that is stored comes out), and \<open>overflow64\<close> is the value of a
  conversion from \<open>float64\<close> to \<open>int64\<close> whose operand is out of range, which the
  language leaves to the implementation.
\<close>

type_synonym float64 = real

record platform =
  round64 :: "real \<Rightarrow> float64"
  overflow64 :: "float64 \<Rightarrow> 64 word"

text \<open>The conversion \<open>int64(x)\<close> of a \<open>float64\<close> discards the fraction.\<close>

definition trunc :: "real \<Rightarrow> int" where
  "trunc x = (if 0 \<le> x then \<lfloor>x\<rfloor> else \<lceil>x\<rceil>)"

definition int64_of_float64 :: "platform \<Rightarrow> float64 \<Rightarrow> 64 word" where
  "int64_of_float64 P x =
     (if - (2 ^ 63) \<le> trunc x \<and> trunc x < 2 ^ 63 then word_of_int (trunc x)
      else overflow64 P x)"

text \<open>The conversion \<open>float64(n)\<close> of an \<open>int64\<close> rounds.\<close>

definition float64_of_int64 :: "platform \<Rightarrow> 64 word \<Rightarrow> float64" where
  "float64_of_int64 P n = round64 P (real_of_int (sint n))"

definition fmul :: "platform \<Rightarrow> float64 \<Rightarrow> float64 \<Rightarrow> float64" where
  "fmul P a b = round64 P (a * b)"

definition fdiv :: "platform \<Rightarrow> float64 \<Rightarrow> float64 \<Rightarrow> float64" where
  "fdiv P a b = round64 P (a / b)"

record AcceptanceOpts =
  Tolerance :: Duration
  baseTime :: Time

text \<open>\<open>opts.baseTime.Add(time.Duration(rel * float64(time.Second)))\<close>\<close>

definition expandTime :: "platform \<Rightarrow> AcceptanceOpts \<Rightarrow> float64 \<Rightarrow> Time" where
  "expandTime P opts rel =
     Time_Add (baseTime opts) (int64_of_float64 P (fmul P rel (float64_of_int64 P Second)))"

text \<open>\<open>float64(act.Sub(opts.baseTime)) / float64(time.Second)\<close>\<close>

definition relativeTime :: "platform \<Rightarrow> AcceptanceOpts \<Rightarrow> Time \<Rightarrow> float64" where
  "relativeTime P opts act =
     fdiv P (float64_of_int64 P (Time_Sub act (baseTime opts))) (float64_of_int64 P Second)"

text \<open>
  What is assumed of the rounding where a property depends on it. IEEE 754 binary64
  rounds a result of magnitude up to \<open>2 ^ 1023\<close> with a relative error of at most
  \<open>1 / 2 ^ 53\<close>, or, below the normal range, with an absolute error of at most
  \<open>1 / 2 ^ 1075\<close>; and it leaves an integer of magnitude up to \<open>2 ^ 53\<close> as it is.
\<close>

definition ieee_rounding :: "platform \<Rightarrow> bool" where
  "ieee_rounding P \<longleftrightarrow>
     (\<forall>r. \<bar>r\<bar> \<le> 2 ^ 1023 \<longrightarrow> \<bar>round64 P r - r\<bar> \<le> \<bar>r\<bar> / 2 ^ 53 + 1 / 2 ^ 1075) \<and>
     (\<forall>n::int. \<bar>n\<bar> \<le> 2 ^ 53 \<longrightarrow> round64 P (real_of_int n) = real_of_int n)"

text \<open>A machine that rounds nothing and converts what is out of range to the least
  \<open>int64\<close>.\<close>

definition exact :: platform where
  "exact = \<lparr>round64 = (\<lambda>r. r), overflow64 = (\<lambda>x. word_of_int (- (2 ^ 63)))\<rparr>"

text \<open>
  What rounding to nearest in binary64 has beyond the relative error, however it breaks
  ties, for results of magnitude up to \<open>2 ^ 1023\<close>: a \<open>float64\<close> is left as it is; a
  \<open>float64\<close> of magnitude at least \<open>2 ^ n\<close> is a multiple of \<open>2 ^ n / 2 ^ 52\<close>, the
  spacing of the \<open>float64\<close>s from \<open>2 ^ n\<close> on; and a result of magnitude at most
  \<open>2 * 2 ^ n\<close> is rounded with an error of at most half of that spacing.
\<close>

definition binary64_rounding :: "platform \<Rightarrow> bool" where
  "binary64_rounding P \<longleftrightarrow>
     ieee_rounding P \<and>
     (\<forall>r. \<bar>r\<bar> \<le> 2 ^ 1023 \<longrightarrow> round64 P (round64 P r) = round64 P r) \<and>
     (\<forall>r n. \<bar>r\<bar> \<le> 2 ^ 1023 \<and> 2 ^ n \<le> \<bar>round64 P r\<bar> \<longrightarrow> round64 P r * 2 ^ 52 / 2 ^ n \<in> \<int>) \<and>
     (\<forall>r n. \<bar>r\<bar> \<le> 2 * 2 ^ n \<and> n < 1023 \<longrightarrow> \<bar>round64 P r - r\<bar> \<le> 2 ^ n / 2 ^ 53)"

text \<open>
  The nanoseconds of the relative time \<open>x\<close>, as \<open>expandTime\<close> computes them, fit
  \<open>int64\<close>: the product \<open>x * 10 ^ 9\<close> is within the finite range of \<open>float64\<close>, and the
  integer part of the \<open>float64\<close> it is rounded to is an \<open>int64\<close>. Then, and only then,
  the language says what the conversion \<open>time.Duration(...)\<close> yields.
\<close>

definition fits_int64 :: "platform \<Rightarrow> float64 \<Rightarrow> bool" where
  "fits_int64 P x \<longleftrightarrow>
     \<bar>x * 1000000000\<bar> \<le> 2 ^ 1023 \<and>
     - (2 ^ 63) \<le> trunc (fmul P x (float64_of_int64 P Second)) \<and>
     trunc (fmul P x (float64_of_int64 P Second)) < 2 ^ 63"

text \<open>
  A concrete rounding: to 53 significant bits, to nearest, ties upwards, with an exponent
  that is not bounded. This is the rounding of binary64 apart from the way ties are broken
  and from the two ends of the exponent range.
\<close>

definition round53 :: "real \<Rightarrow> real" where
  "round53 r =
     (if r = 0 then 0
      else 2 powr (real_of_int (\<lfloor>log 2 \<bar>r\<bar>\<rfloor> - 52)) *
           real_of_int (round (r / 2 powr (real_of_int (\<lfloor>log 2 \<bar>r\<bar>\<rfloor> - 52)))))"

text \<open>A machine that rounds in this way and converts what is out of range to the least
  \<open>int64\<close>.\<close>

definition binary53 :: platform where
  "binary53 = \<lparr>round64 = round53, overflow64 = (\<lambda>x. word_of_int (- (2 ^ 63)))\<rparr>"

section \<open>Managed instances\<close>

text \<open>
  A call ends in one of three ways: it returns, it ends its goroutine (\<open>t.Fatal\<close> and
  \<open>t.Fatalf\<close> call \<open>runtime.Goexit\<close> after marking the test failed), or it panics
  (here: a nil pointer is dereferenced). Or it does not end: it is \<open>Blocked\<close> when it
  waits for something that never happens, and \<open>Crashed\<close> when the process ends under
  it, which is what a panic in any goroutine does to all the others. Deferred calls run in
  the first three cases only.
\<close>

datatype exit = Returned | Goexit | Panicked | Blocked | Crashed

definition Fatal :: "testing_T \<Rightarrow> string \<Rightarrow> testing_T" where
  "Fatal T msg = (Log T msg)\<lparr>failed := True\<rparr>"

datatype signal = SIGTERM | SIGHUP

text \<open>
  The operating system as the harness sees it: the files by path, the signals sent so
  far, and the wall clock.
\<close>

record OS =
  files :: "string \<rightharpoonup> string"
  kills :: "(nat \<times> signal) list"
  clock :: Time

text \<open>\<open>os.File\<close>: the path it was opened under and the offset of the descriptor.\<close>

record File =
  Name :: string
  pos :: nat

text \<open>\<open>exec.Cmd\<close>: \<open>Process\<close> is nil until the command has been started.\<close>

record Cmd =
  Args :: "string list"
  Process :: "nat option"

record Alertmanager =
  addr :: string
  cmd :: Cmd
  confFile :: File

text \<open>
  A write through a descriptor puts the bytes at the descriptor's offset, over what is
  there, and moves the offset behind them. Nothing truncates the file.
\<close>

definition write_at :: "string \<Rightarrow> nat \<Rightarrow> string \<Rightarrow> string" where
  "write_at old off s =
     take off old @ replicate (off - length old) (CHR 0x00) @ s @ drop (off + length s) old"

text \<open>
  \<open>f.WriteString(s)\<close>. The outcome of the system call is an input: \<open>None\<close> when all of
  \<open>s\<close> was written, \<open>Some (n, err)\<close> when the call failed after \<open>n\<close> bytes. A file
  whose path has been removed takes the bytes where no path shows them.
\<close>

definition WriteString ::
  "File \<Rightarrow> string \<Rightarrow> (nat \<times> string) option \<Rightarrow> OS \<Rightarrow> File \<times> OS \<times> string option" where
  "WriteString f s res w =
     (let written = (case res of None \<Rightarrow> s | Some (n, err) \<Rightarrow> take n s);
          w' = (case files w (Name f) of
                  None \<Rightarrow> w
                | Some old \<Rightarrow> w\<lparr>files := (files w)(Name f \<mapsto> write_at old (pos f) written)\<rparr>)
      in (f\<lparr>pos := pos f + length written\<rparr>, w', map_option snd res))"

text \<open>
  \<open>func (am *Alertmanager) UpdateConfig(conf string)\<close>: write the string, report a
  failure with \<open>t.Error\<close> and return; then \<open>Sync\<close>, whose failure is reported the same
  way. \<open>wres\<close> and \<open>sres\<close> are the outcomes of the two system calls.
\<close>

definition UpdateConfig ::
  "Alertmanager \<Rightarrow> string \<Rightarrow> (nat \<times> string) option \<Rightarrow> string option \<Rightarrow>
     testing_T \<Rightarrow> OS \<Rightarrow> Alertmanager \<times> testing_T \<times> OS" where
  "UpdateConfig am conf wres sres T w =
     (case WriteString (confFile am) conf wres w of
        (f, w', Some err) \<Rightarrow> (am\<lparr>confFile := f\<rparr>, Error T err, w')
      | (f, w', None) \<Rightarrow>
          (case sres of
             Some err \<Rightarrow> (am\<lparr>confFile := f\<rparr>, Error T err, w')
           | None \<Rightarrow> (am\<lparr>confFile := f\<rparr>, T, w')))"

text \<open>
  \<open>func (t *AcceptanceTest) Alertmanager(conf string)\<close>, for a run in which the
  temporary file \<open>name\<close> and the address \<open>a\<close> were obtained and the writes went
  through: the file is new and empty, the configuration is written into it, and the
  command is built but not started.
\<close>

definition new_Alertmanager ::
  "string \<Rightarrow> string \<Rightarrow> string \<Rightarrow> testing_T \<Rightarrow> OS \<Rightarrow> Alertmanager \<times> testing_T \<times> OS" where
  "new_Alertmanager conf name a T w =
     (let am = \<lparr>addr = [], cmd = \<lparr>Args = [], Process = None\<rparr>,
                confFile = \<lparr>Name = name, pos = 0\<rparr>\<rparr>;
          (am1, T1, w1) = UpdateConfig am conf None None T (w\<lparr>files := (files w)(name \<mapsto> [])\<rparr>)
      in (am1\<lparr>addr := a,
              cmd := \<lparr>Args = [''-config.file'', name, ''-log.level'', ''debug'',
                               ''-web.listen-address'', a],
                      Process = None\<rparr>\<rparr>,
          Log T1 (''AM on '' @ a), w1))"

text \<open>
  \<open>cmd.Start()\<close> of \<open>os/exec\<close>: a command that has a process is refused, otherwise
  the operating system's answer \<open>launch\<close> is an error or the new process.
\<close>

definition Cmd_Start :: "Cmd \<Rightarrow> string + nat \<Rightarrow> Cmd \<times> string option" where
  "Cmd_Start c launch =
     (if Process c \<noteq> None then (c, Some ''exec: already started'')
      else case launch of
             Inl err \<Rightarrow> (c, Some err)
           | Inr pid \<Rightarrow> (c\<lparr>Process := Some pid\<rparr>, None))"

text \<open>\<open>time.Sleep(d)\<close> returns at once when \<open>d\<close> is negative or zero.\<close>

definition Sleep :: "Duration \<Rightarrow> OS \<Rightarrow> OS" where
  "Sleep d w = w\<lparr>clock := clock w + max 0 (sint d)\<rparr>"

text \<open>\<open>func (am *Alertmanager) Start()\<close>\<close>

definition Start ::
  "Alertmanager \<Rightarrow> string + nat \<Rightarrow> testing_T \<Rightarrow> OS \<Rightarrow> exit \<times> Alertmanager \<times> testing_T \<times> OS" where
  "Start am launch T w =
     (case Cmd_Start (cmd am) launch of
        (c, Some err) \<Rightarrow>
          (Goexit, am\<lparr>cmd := c\<rparr>, Fatal T (''Starting alertmanager failed: '' @ err), w)
      | (c, None) \<Rightarrow> (Returned, am\<lparr>cmd := c\<rparr>, T, Sleep (100 * Millisecond) w))"

text \<open>
  \<open>syscall.Kill(am.cmd.Process.Pid, sig)\<close>: \<open>am.cmd.Process\<close> is a pointer, and reading
  \<open>Pid\<close> through nil panics. The result of \<open>Kill\<close> is dropped.
\<close>

definition Kill :: "Alertmanager \<Rightarrow> signal \<Rightarrow> OS \<Rightarrow> exit \<times> OS" where
  "Kill am sig w =
     (case Process (cmd am) of
        None \<Rightarrow> (Panicked, w)
      | Some pid \<Rightarrow> (Returned, w\<lparr>kills := kills w @ [(pid, sig)]\<rparr>))"

text \<open>\<open>func (am *Alertmanager) Terminate()\<close>\<close>

definition Terminate :: "Alertmanager \<Rightarrow> OS \<Rightarrow> exit \<times> OS" where
  "Terminate am w = Kill am SIGTERM w"

text \<open>\<open>func (am *Alertmanager) Reload()\<close>\<close>

definition Reload :: "Alertmanager \<Rightarrow> OS \<Rightarrow> exit \<times> OS" where
  "Reload am w = Kill am SIGHUP w"

text \<open>\<open>func (am *Alertmanager) cleanup()\<close>: \<open>os.RemoveAll(am.confFile.Name())\<close>\<close>

definition cleanup :: "Alertmanager \<Rightarrow> OS \<Rightarrow> OS" where
  "cleanup am w = w\<lparr>files := (files w)(Name (confFile am) := None)\<rparr>"

section \<open>Running a test\<close>

text \<open>
  What \<open>Run\<close> takes from outside the source at hand: the operating system's answer to
  starting each command, the two methods of \<open>Collector\<close> that \<open>Run\<close> calls (they are
  taken to return, as the use of their results says; the type is declared in another
  file), what the processes printed, and the effect of the scheduled closures.

  \<open>runActions\<close> runs the closures in goroutines of their own and waits for them, so the
  first component of its effect says how those goroutines ended: \<open>Returned\<close> when every
  closure returned, \<open>Goexit\<close> when one ended its goroutine, \<open>Panicked\<close> when one
  panicked (\<open>Blocked\<close> and \<open>Crashed\<close> when one never returned or the process ended).
  The timing of \<open>runActions\<close> is modelled further down.
\<close>

record 'c run_env =
  launch :: "Alertmanager \<Rightarrow> string + nat"
  runActions :: "testing_T \<Rightarrow> OS \<Rightarrow> exit \<times> testing_T \<times> OS"
  latest :: "'c \<Rightarrow> float64"
  check :: "'c \<Rightarrow> string"
  printed :: "Alertmanager \<Rightarrow> string \<times> string"

text \<open>
  The function that \<open>Run\<close> defers for an instance: \<open>am.Terminate()\<close>, then
  \<open>am.cleanup()\<close>. A panic in the first leaves the function before the second.
\<close>

definition teardown :: "Alertmanager \<Rightarrow> OS \<Rightarrow> exit \<times> OS" where
  "teardown am w =
     (case Terminate am w of
        (Returned, w') \<Rightarrow> (Returned, cleanup am w')
      | (e, w') \<Rightarrow> (e, w'))"

text \<open>
  Deferred calls run last in, first out, when the function returns, when its goroutine
  exits and when it panics. The list has the call deferred last at its head; \<open>e\<close> is the
  way the function is ending. A deferred call that panics does not stop the ones below it.
\<close>

fun run_deferred :: "Alertmanager list \<Rightarrow> exit \<Rightarrow> OS \<Rightarrow> exit \<times> OS" where
  "run_deferred [] e w = (e, w)"
| "run_deferred (am # ds) e w =
     (case teardown am w of
        (Returned, w') \<Rightarrow> run_deferred ds e w'
      | (e', w') \<Rightarrow> run_deferred ds Panicked w')"

text \<open>
  The first loop of \<open>Run\<close>: \<open>am.Start()\<close>, and after it has returned
  \<open>defer func(am) { am.Terminate(); am.cleanup() }(am)\<close>. When \<open>Start\<close> does not
  return, the loop is left with nothing deferred for that instance.
\<close>

fun start_loop ::
  "Alertmanager list \<Rightarrow> (Alertmanager \<Rightarrow> string + nat) \<Rightarrow> testing_T \<Rightarrow> OS \<Rightarrow> Alertmanager list \<Rightarrow>
     exit \<times> Alertmanager list \<times> testing_T \<times> OS \<times> Alertmanager list" where
  "start_loop [] lch T w ds = (Returned, [], T, w, ds)"
| "start_loop (am # rest) lch T w ds =
     (case Start am (lch am) T w of
        (Returned, am', T', w') \<Rightarrow>
          (case start_loop rest lch T' w' (am' # ds) of
             (e, rest', T'', w'', ds') \<Rightarrow> (e, am' # rest', T'', w'', ds'))
      | (e, am', T', w') \<Rightarrow> (e, am' # rest, T', w', ds))"

text \<open>
  The second loop: \<open>var latest float64\<close>, then
  \<open>if l := coll.latest(); l > latest { latest = l }\<close> for every collector.
\<close>

definition latest_loop :: "('c \<Rightarrow> float64) \<Rightarrow> 'c list \<Rightarrow> float64" where
  "latest_loop lat colls = foldl (\<lambda>latest coll. if lat coll > latest then lat coll else latest) 0 colls"

text \<open>
  \<open>deadline := t.opts.expandTime(latest)\<close> and
  \<open>time.Sleep(deadline.Sub(time.Now()))\<close>.
\<close>

definition wait_deadline :: "platform \<Rightarrow> AcceptanceOpts \<Rightarrow> ('c \<Rightarrow> float64) \<Rightarrow> 'c list \<Rightarrow> OS \<Rightarrow> OS" where
  "wait_deadline P opts lat colls w =
     (let deadline = expandTime P opts (latest_loop lat colls)
      in Sleep (Time_Sub deadline (clock w)) w)"

text \<open>The third loop logs \<open>coll.check()\<close> for every collector.\<close>

definition check_loop :: "('c \<Rightarrow> string) \<Rightarrow> 'c list \<Rightarrow> testing_T \<Rightarrow> testing_T" where
  "check_loop chk colls T = foldl (\<lambda>T coll. Log T (chk coll)) T colls"

text \<open>The last loop logs what each process wrote to its standard output and error.\<close>

definition output_loop :: "(Alertmanager \<Rightarrow> string \<times> string) \<Rightarrow> Alertmanager list \<Rightarrow> testing_T \<Rightarrow> testing_T" where
  "output_loop pr as T =
     foldl (\<lambda>T am. Log (Log T (''stdout: '' @ fst (pr am))) (''stderr: '' @ snd (pr am))) T as"

text \<open>
  What \<open>wg.Wait()\<close> at the end of \<open>runActions\<close> does to the goroutine of \<open>Run\<close>. Each
  goroutine calls \<open>wg.Done()\<close> after its closure has returned. A closure that ends its
  goroutine skips \<open>wg.Done()\<close>, and the wait never ends; a closure that panics ends the
  process.
\<close>

fun joined :: "exit \<Rightarrow> exit" where
  "joined Returned = Returned"
| "joined Goexit = Blocked"
| "joined Blocked = Blocked"
| "joined Panicked = Crashed"
| "joined Crashed = Crashed"

text \<open>
  \<open>func (t *AcceptanceTest) Run()\<close>. The result is the way the call ended, the
  instances, the test's record and the operating system. The deferred calls run when the
  goroutine of \<open>Run\<close> comes to its end: \<open>Run\<close> returns, or \<open>Start\<close> ends the goroutine.
  They do not run when \<open>runActions\<close> does not come back.
\<close>

definition Run ::
  "platform \<Rightarrow> 'c run_env \<Rightarrow> AcceptanceOpts \<Rightarrow> Alertmanager list \<Rightarrow> 'c list \<Rightarrow> testing_T \<Rightarrow> OS \<Rightarrow>
     exit \<times> Alertmanager list \<times> testing_T \<times> OS" where
  "Run P E opts as colls T w =
     (case start_loop as (launch E) T w [] of
        (Returned, as1, T1, w1, ds) \<Rightarrow>
          (case runActions E T1 w1 of
             (Returned, T2, w2) \<Rightarrow>
               (let w3 = wait_deadline P opts (latest E) colls w2;
                    T3 = check_loop (check E) colls T2;
                    T4 = output_loop (printed E) as1 T3
                in case run_deferred ds Returned w3 of (e, w4) \<Rightarrow> (e, as1, T4, w4))
           | (e, T2, w2) \<Rightarrow> (joined e, as1, T2, w2))
      | (e, as1, T1, w1, ds) \<Rightarrow> (case run_deferred ds e w1 of (e', w2) \<Rightarrow> (e', as1, T1, w2)))"

section \<open>The timing of runActions\<close>

text \<open>
  \<open>runActions\<close> starts one goroutine for each closure of the table and waits for all of
  them. What a goroutine does is in the source; when it gets to run and how long its
  closure takes is for the scheduler and the closure, and is an input here: the machine as
  the goroutine finds it when it calls \<open>time.Now()\<close>, and the time the closure takes,
  \<open>None\<close> for a closure that does not return.

  A firing records one goroutine: the closure, the relative time it was scheduled at, the
  absolute time \<open>ts\<close>, the clock when the goroutine began, the clock when it called the
  closure, and the clock when it called \<open>wg.Done()\<close>, if it did.
\<close>

record 'f firing =
  closure :: 'f
  rel :: float64
  due :: Time
  began :: Time
  called_at :: Time
  done_at :: "Time option"





section \<open>The scheduled closures of a managed instance\<close>

text \<open>
  \<open>TestSilence\<close> and \<open>TestAlert\<close> are declared outside the source at hand. Of a
  silence only the field \<open>ID\<close> is used here; the other fields are the record's
  extension. A test alert is a value of a type parameter. Both are passed by pointer:
  the memory maps an address to the value behind it.
\<close>

record TestSilence =
  ID :: string

record ('ta, 'z) memory =
  alerts :: "nat \<Rightarrow> 'ta"
  silences :: "nat \<Rightarrow> 'z TestSilence_scheme"

text \<open>
  The three closures that \<open>Push\<close>, \<open>SetSilence\<close> and \<open>DelSilence\<close> hand to \<open>Do\<close>, each
  with the variables it captures: the address the client is bound to and the native
  alerts \<open>nas\<close>, or the pointer \<open>sil\<close>. A native alert is what \<open>nativeAlert\<close> returned:
  a pointer to a structure that may share maps with the test alert it was made from. What it
  stands for is read when it is sent.
\<close>

datatype 'na closure =
  PushClosure string "'na list"
| SetSilenceClosure string nat
| DelSilenceClosure string nat

text \<open>A call of the instance's API, as the server receives it.\<close>

datatype ('w, 'ns) request =
  PushAlerts string "'w list"
| SetSilenceReq string 'ns
| DelSilenceReq string string

text \<open>
  What the closures use from outside the source at hand: the conversions
  \<open>nativeAlert\<close> and \<open>nativeSilence\<close>, the encoding of a native alert when the client
  sends it, which reads the memory as it is then, and the server's answer to a request (an
  error, or the result, which is the silence's identifier for \<open>Set\<close>).
\<close>

record ('ta, 'z, 'na, 'ns, 'w) api_env =
  nativeAlert :: "AcceptanceOpts \<Rightarrow> 'ta \<Rightarrow> 'na"
  nativeSilence :: "AcceptanceOpts \<Rightarrow> 'z TestSilence_scheme \<Rightarrow> 'ns"
  encode :: "('ta, 'z) memory \<Rightarrow> 'na \<Rightarrow> 'w"
  answer :: "('w, 'ns) request \<Rightarrow> string + string"

text \<open>The state a closure runs in: the memory, the requests sent, the test's record.\<close>

record ('ta, 'z, 'ns, 'w) run_state =
  mem :: "('ta, 'z) memory"
  sent :: "('w, 'ns) request list"
  tst :: testing_T

text \<open>
  \<open>func (am *Alertmanager) Push(at float64, alerts ...*TestAlert)\<close>: \<open>nativeAlert\<close> is
  called in the loop before the closure is made, on the test alerts as they are in memory
  then, and the closure keeps the pointers it returned.
\<close>

definition Push ::
  "('ta, 'z, 'na, 'ns, 'w) api_env \<Rightarrow> AcceptanceOpts \<Rightarrow> Alertmanager \<Rightarrow> float64 \<Rightarrow> nat list \<Rightarrow>
     ('ta, 'z) memory \<Rightarrow> (float64, 'na closure) actions \<Rightarrow> (float64, 'na closure) actions" where
  "Push A opts am tm as m acts =
     (let nas = map (\<lambda>a. nativeAlert A opts (alerts m a)) as
      in Do acts tm (PushClosure (addr am) nas))"

text \<open>\<open>func (am *Alertmanager) SetSilence(at float64, sil *TestSilence)\<close>\<close>

definition SetSilence ::
  "Alertmanager \<Rightarrow> float64 \<Rightarrow> nat \<Rightarrow> (float64, 'na closure) actions \<Rightarrow> (float64, 'na closure) actions" where
  "SetSilence am tm sil acts = Do acts tm (SetSilenceClosure (addr am) sil)"

text \<open>\<open>func (am *Alertmanager) DelSilence(at float64, sil *TestSilence)\<close>\<close>

definition DelSilence ::
  "Alertmanager \<Rightarrow> float64 \<Rightarrow> nat \<Rightarrow> (float64, 'na closure) actions \<Rightarrow> (float64, 'na closure) actions" where
  "DelSilence am tm sil acts = Do acts tm (DelSilenceClosure (addr am) sil)"

text \<open>
  Calling a closure. The bodies are:
  \<^item> \<open>if err := alertAPI.Push(ctx, nas...); err != nil { am.t.Error(err) }\<close>
  \<^item> \<open>sid, err := silences.Set(ctx, sil.nativeSilence(am.opts)); if err != nil {
     am.t.Error(err); return }; sil.ID = sid\<close>
  \<^item> \<open>if err := silences.Del(ctx, sil.ID); err != nil { am.t.Error(err) }\<close>
\<close>

fun fire ::
  "('ta, 'z, 'na, 'ns, 'w) api_env \<Rightarrow> AcceptanceOpts \<Rightarrow> 'na closure \<Rightarrow>
     ('ta, 'z, 'ns, 'w) run_state \<Rightarrow> ('ta, 'z, 'ns, 'w) run_state" where
  "fire A opts (PushClosure a nas) s =
     (let rq = PushAlerts a (map (encode A (mem s)) nas); s1 = s\<lparr>sent := sent s @ [rq]\<rparr>
      in case answer A rq of
           Inl err \<Rightarrow> s1\<lparr>tst := Error (tst s1) err\<rparr>
         | Inr r \<Rightarrow> s1)"
| "fire A opts (SetSilenceClosure a sil) s =
     (let rq = SetSilenceReq a (nativeSilence A opts (silences (mem s) sil));
          s1 = s\<lparr>sent := sent s @ [rq]\<rparr>
      in case answer A rq of
           Inl err \<Rightarrow> s1\<lparr>tst := Error (tst s1) err\<rparr>
         | Inr sid \<Rightarrow>
             s1\<lparr>mem := (mem s1)\<lparr>silences := (silences (mem s1))(sil := (silences (mem s1) sil)\<lparr>ID := sid\<rparr>)\<rparr>\<rparr>)"
| "fire A opts (DelSilenceClosure a sil) s =
     (let rq = DelSilenceReq a (ID (silences (mem s) sil)); s1 = s\<lparr>sent := sent s @ [rq]\<rparr>
      in case answer A rq of
           Inl err \<Rightarrow> s1\<lparr>tst := Error (tst s1) err\<rparr>
         | Inr r \<Rightarrow> s1)"

section \<open>Notions used to state the properties\<close>

text \<open>
  \<open>starts\<close> says that \<open>Start\<close> will return for an instance: its command has no process
  yet and the operating system launches it. \<open>started\<close> is the instance afterwards.
\<close>

definition starts :: "(Alertmanager \<Rightarrow> string + nat) \<Rightarrow> Alertmanager \<Rightarrow> bool" where
  "starts lch am \<longleftrightarrow> Process (cmd am) = None \<and> (case lch am of Inr pid \<Rightarrow> True | Inl err \<Rightarrow> False)"

definition started :: "(Alertmanager \<Rightarrow> string + nat) \<Rightarrow> Alertmanager \<Rightarrow> Alertmanager" where
  "started lch am = (case lch am of Inr pid \<Rightarrow> am\<lparr>cmd := (cmd am)\<lparr>Process := Some pid\<rparr>\<rparr> | Inl err \<Rightarrow> am)"

text \<open>The termination signals for the processes of a list of instances, and the paths of
  their configuration files.\<close>

definition term_signals :: "Alertmanager list \<Rightarrow> (nat \<times> signal) list" where
  "term_signals ds =
     concat (map (\<lambda>am. case Process (cmd am) of None \<Rightarrow> [] | Some pid \<Rightarrow> [(pid, SIGTERM)]) ds)"

definition conf_names :: "Alertmanager list \<Rightarrow> string set" where
  "conf_names ds = (\<lambda>am. Name (confFile am)) ` set ds"

text \<open>The greatest \<open>latest()\<close> of the collectors, and zero when there is none.\<close>

definition max_latest :: "('c \<Rightarrow> float64) \<Rightarrow> 'c list \<Rightarrow> float64" where
  "max_latest lat colls = (if colls = [] then 0 else Max (lat ` set colls))"

section \<open>The collector\<close>

text \<open>
  Modelled from the spec: the type \<open>Collector\<close> and its methods are not in the source at
  hand, which only calls \<open>latest()\<close> and \<open>check()\<close>. An expectation is an interval
  \<open>(earliest, latest)\<close> of relative times with one expected alert batch; a batch is a set of
  alert records, equal to another batch when the records are the same whatever their order.
\<close>

record 'a expectation =
  ex_earliest :: float64
  ex_latest :: float64
  ex_batch :: "'a set"

text \<open>
  Modelled from the spec: an observation is \<open>(observedAt, batch)\<close>.
\<close>

record 'a observation =
  observedAt :: float64
  ob_batch :: "'a set"

text \<open>
  Modelled from the spec: a candidate for an expectation is an observation whose
  \<open>observedAt\<close> falls in \<open>[earliest - tolerance, latest + tolerance]\<close> and whose batch is
  value-equal to the expected batch.
\<close>

definition candidate :: "float64 \<Rightarrow> 'a expectation \<Rightarrow> 'a observation \<Rightarrow> bool" where
  "candidate tol e ob \<longleftrightarrow>
     ex_earliest e - tol \<le> observedAt ob \<and> observedAt ob \<le> ex_latest e + tol \<and>
     ob_batch ob = ex_batch e"

text \<open>
  Modelled from the spec: once an observation is used to satisfy an expectation it is
  removed from the candidate pool. \<open>consume\<close> takes the first member of the pool that is a
  candidate and returns it with the pool without it; it is \<open>None\<close> when there is none.
\<close>

fun consume :: "('o \<Rightarrow> bool) \<Rightarrow> 'o list \<Rightarrow> ('o \<times> 'o list) option" where
  "consume p [] = None"
| "consume p (x # xs) =
     (if p x then Some (x, xs)
      else case consume p xs of None \<Rightarrow> None | Some (y, ys) \<Rightarrow> Some (y, x # ys))"

text \<open>
  Modelled from the spec: the mapping from expectations to the observations that satisfy
  them. An expectation is satisfied if at least one candidate exists in the pool, and the
  observation used is consumed before the subsequent expectations are matched. The pool
  holds the observations with their numbers; the result maps each expectation to the
  numbered observation that satisfied it, or to nothing, and returns what is left of the
  pool.
\<close>

fun match_in_order ::
  "float64 \<Rightarrow> 'a expectation list \<Rightarrow> (nat \<times> 'a observation) list \<Rightarrow>
     ('a expectation \<times> (nat \<times> 'a observation) option) list \<times> (nat \<times> 'a observation) list" where
  "match_in_order tol [] pool = ([], pool)"
| "match_in_order tol (e # es) pool =
     (case consume (\<lambda>x. candidate tol e (snd x)) pool of
        None \<Rightarrow> (case match_in_order tol es pool of (ms, rest) \<Rightarrow> ((e, None) # ms, rest))
      | Some (x, pool') \<Rightarrow>
          (case match_in_order tol es pool' of (ms, rest) \<Rightarrow> ((e, Some x) # ms, rest)))"

text \<open>The numbers of the observations that a mapping uses, one for each satisfied
  expectation.\<close>

fun used :: "('e \<times> (nat \<times> 'o) option) list \<Rightarrow> nat list" where
  "used [] = []"
| "used ((e, None) # ms) = used ms"
| "used ((e, Some x) # ms) = fst x # used ms"

text \<open>
  Modelled from the spec: the report has the count of satisfied expectations, the
  unsatisfied expectations with their interval and batch, and the observations that matched
  no expectation. It also keeps the mapping it was made from.
\<close>

record 'a report =
  matches :: "('a expectation \<times> (nat \<times> 'a observation) option) list"
  satisfied :: nat
  unsatisfied :: "'a expectation list"
  extras :: "'a observation list"

text \<open>
  Modelled from the spec: \<open>reconcile\<close> matches the expectations in ascending order of
  \<open>earliest\<close>, against all observations of the collector.
\<close>

definition reconcile :: "float64 \<Rightarrow> 'a expectation list \<Rightarrow> 'a observation list \<Rightarrow> 'a report" where
  "reconcile tol exps obs =
     (case match_in_order tol (sort_key ex_earliest exps) (enumerate 0 obs) of
        (ms, rest) \<Rightarrow>
          \<lparr>matches = ms,
           satisfied = length (used ms),
           unsatisfied = map fst (filter (\<lambda>m. snd m = None) ms),
           extras = map snd rest\<rparr>)"

section \<open>Concrete runs\<close>

text \<open>A test that has not failed, an empty machine, and an environment in which the actions
  return at once and nothing is printed; \<open>lch\<close> is the answer to starting a command.\<close>

definition fresh_T :: testing_T where
  "fresh_T = \<lparr>failed = False, logged = []\<rparr>"

definition empty_OS :: OS where
  "empty_OS = \<lparr>files = Map.empty, kills = [], clock = 0\<rparr>"

definition zero_opts :: AcceptanceOpts where
  "zero_opts = \<lparr>Tolerance = 0, baseTime = 0\<rparr>"

definition quiet_env :: "(Alertmanager \<Rightarrow> string + nat) \<Rightarrow> unit run_env" where
  "quiet_env lch = \<lparr>launch = lch, runActions = (\<lambda>T w. (Returned, T, w)), latest = (\<lambda>c. 0),
               check = (\<lambda>c. []), printed = (\<lambda>am. ([], []))\<rparr>"

text \<open>Two instances that have been constructed, with their configuration files, and an
  operating system that can launch only the first.\<close>

definition am_a :: Alertmanager where
  "am_a = \<lparr>addr = ''a:1'', cmd = \<lparr>Args = [], Process = None\<rparr>, confFile = \<lparr>Name = ''cfg_a'', pos = 1\<rparr>\<rparr>"

definition am_b :: Alertmanager where
  "am_b = \<lparr>addr = ''b:2'', cmd = \<lparr>Args = [], Process = None\<rparr>, confFile = \<lparr>Name = ''cfg_b'', pos = 1\<rparr>\<rparr>"

definition w_ab :: OS where
  "w_ab = \<lparr>files = [''cfg_a'' \<mapsto> ''x'', ''cfg_b'' \<mapsto> ''y''], kills = [], clock = 0\<rparr>"

definition only_a :: "Alertmanager \<Rightarrow> string + nat" where
  "only_a am = (if addr am = ''a:1'' then Inr 7 else Inl ''exec: not found'')"

text \<open>Two expectations for the batch \<open>B\<close>, at \<open>[5, 10]\<close> and at \<open>[20, 30]\<close>, and an
  observation of \<open>B\<close> at a given time.\<close>

definition ex_early :: "string expectation" where
  "ex_early = \<lparr>ex_earliest = 5, ex_latest = 10, ex_batch = {''B''}\<rparr>"

definition ex_late :: "string expectation" where
  "ex_late = \<lparr>ex_earliest = 20, ex_latest = 30, ex_batch = {''B''}\<rparr>"

definition ob_B :: "float64 \<Rightarrow> string observation" where
  "ob_B tm = \<lparr>observedAt = tm, ob_batch = {''B''}\<rparr>"




section \<open>Scheduling accumulates\<close>

lemma slice_at_Do: "slice_at (Do m tm f) k = (if k = tm then slice_at m tm @ [f] else slice_at m k)"
  by (simp add: slice_at_def Do_def)

lemma slice_at_Do_calls: "slice_at (Do_calls m cs) k = slice_at m k @ scheduled_at cs k"
proof (induction cs arbitrary: m)
  case Nil
  show ?case by (simp add: scheduled_at_def)
next
  case (Cons c cs)
  obtain tm f where c: "c = (tm, f)" by (cases c)
  show ?case
    unfolding c using Cons.IH [of "Do m tm f"]
    by (simp add: slice_at_Do scheduled_at_def)
qed

lemma dom_Do: "dom (Do m tm f) = insert tm (dom m)"
  by (simp add: Do_def)

lemma dom_Do_calls: "dom (Do_calls m cs) = dom m \<union> fst ` set cs"
proof (induction cs arbitrary: m)
  case Nil
  show ?case by simp
next
  case (Cons c cs)
  obtain tm f where c: "c = (tm, f)" by (cases c)
  have "dom (Do_calls (Do m tm f) cs) = insert tm (dom m) \<union> fst ` set cs"
    using Cons.IH [of "Do m tm f"] by (simp only: dom_Do)
  then show ?case unfolding c by simp
qed

text \<open>
  C5. After any sequence of calls of \<open>Do\<close> on a new test, the slice stored at a time
  \<open>k\<close> is the list of all operations that were scheduled at \<open>k\<close>, in the order of the
  calls, and a time at which nothing was scheduled has no entry. A later call at the same
  time extends the slice and keeps what was there.
\<close>

theorem Do_accumulates:
  fixes cs :: "('k \<times> 'f) list"
  shows "slice_at (Do_calls new_actions cs) k = scheduled_at cs k \<and>
   dom (Do_calls new_actions cs) = fst ` set cs \<and>
   slice_at (Do (Do_calls new_actions cs) k g) k = scheduled_at cs k @ [g]"
proof -
  have "slice_at (new_actions :: ('k, 'f) actions) k = []"
    by (simp add: slice_at_def new_actions_def)
  then have a: "slice_at (Do_calls new_actions cs) k = scheduled_at cs k"
    by (simp add: slice_at_Do_calls)
  have b: "dom (Do_calls (new_actions :: ('k, 'f) actions) cs) = fst ` set cs"
    by (simp add: dom_Do_calls new_actions_def)
  from a b show ?thesis by (simp add: slice_at_Do)
qed

section \<open>Durations as signed words\<close>

lemma sint_word64_of_int:
  "- (2 ^ 63) \<le> n \<Longrightarrow> n < 2 ^ 63 \<Longrightarrow> sint (word_of_int n :: 64 word) = n"
  by (simp add: sint_sbintrunc' signed_take_bit_int_eq_self)

lemma sint_Time_Sub: "sint (Time_Sub t u) = max (- (2 ^ 63)) (min (2 ^ 63 - 1) (t - u))"
proof -
  define d where "d = t - u"
  have eq: "Time_Sub t u =
     (if d < - (2 ^ 63) then word_of_int (- (2 ^ 63))
      else if 2 ^ 63 \<le> d then word_of_int (2 ^ 63 - 1)
      else word_of_int d)"
    unfolding Time_Sub_def d_def ..
  have lo: "sint (word_of_int (- (2 ^ 63)) :: 64 word) = - (2 ^ 63)"
    by (rule sint_word64_of_int) simp_all
  have hi: "sint (word_of_int (2 ^ 63 - 1) :: 64 word) = 2 ^ 63 - 1"
    by (rule sint_word64_of_int) simp_all
  have mid: "- (2 ^ 63) \<le> d \<Longrightarrow> d < 2 ^ 63 \<Longrightarrow> sint (word_of_int d :: 64 word) = d"
    by (rule sint_word64_of_int)
  consider "d < - (2 ^ 63)" | "2 ^ 63 \<le> d" | "- (2 ^ 63) \<le> d" "d < 2 ^ 63"
    by linarith
  then have "sint (Time_Sub t u) = max (- (2 ^ 63)) (min (2 ^ 63 - 1) d)"
  proof cases
    case 1
    then show ?thesis unfolding eq by (simp add: lo)
  next
    case 2
    then have "\<not> d < - (2 ^ 63)" by simp
    with 2 show ?thesis unfolding eq by (simp add: hi)
  next
    case 3
    then have "\<not> d < - (2 ^ 63)" "\<not> 2 ^ 63 \<le> d" by simp_all
    with 3 show ?thesis unfolding eq by (simp add: mid)
  qed
  then show ?thesis unfolding d_def .
qed

lemma sint_Second: "sint Second = 1000000000"
  by (simp add: Second_def)

section \<open>Teardown\<close>

lemma Start_starts:
  "starts lch am \<Longrightarrow> Start am (lch am) T w = (Returned, started lch am, T, Sleep (100 * Millisecond) w)"
  by (auto simp: starts_def started_def Start_def Cmd_Start_def split: sum.splits)

lemma Start_not_starts:
  "\<not> starts lch am \<Longrightarrow> \<exists>msg. Start am (lch am) T w = (Goexit, am, Fatal T msg, w)"
  by (auto simp: starts_def Start_def Cmd_Start_def split: sum.splits)

lemma starts_started: "starts lch am \<Longrightarrow> Process (cmd (started lch am)) \<noteq> None"
  by (auto simp: starts_def started_def split: sum.splits)

lemma Name_started: "Name (confFile (started lch am)) = Name (confFile am)"
  by (simp add: started_def split: sum.splits)

lemma teardown_started:
  "Process (cmd am) = Some pid \<Longrightarrow>
   teardown am w = (Returned, w\<lparr>kills := kills w @ [(pid, SIGTERM)],
                                  files := (files w)(Name (confFile am) := None)\<rparr>)"
  by (simp add: teardown_def Terminate_def Kill_def cleanup_def)

lemma teardown_not_started:
  "Process (cmd am) = None \<Longrightarrow> teardown am w = (Panicked, w)"
  by (simp add: teardown_def Terminate_def Kill_def)

lemma run_deferred_started:
  "\<forall>am\<in>set ds. Process (cmd am) \<noteq> None \<Longrightarrow>
   \<exists>w'. run_deferred ds e w = (e, w') \<and> clock w' = clock w \<and>
        kills w' = kills w @ term_signals ds \<and>
        files w' = files w |` (- conf_names ds)"
proof (induction ds arbitrary: w)
  case Nil
  show ?case by (simp add: term_signals_def conf_names_def)
next
  case (Cons am ds)
  from Cons.prems obtain pid where pid: "Process (cmd am) = Some pid" by auto
  let ?w1 = "w\<lparr>kills := kills w @ [(pid, SIGTERM)], files := (files w)(Name (confFile am) := None)\<rparr>"
  from Cons.prems have "\<forall>am\<in>set ds. Process (cmd am) \<noteq> None" by simp
  from Cons.IH [OF this, of ?w1] obtain w' where
    w': "run_deferred ds e ?w1 = (e, w')" "clock w' = clock ?w1"
        "kills w' = kills ?w1 @ term_signals ds"
        "files w' = files ?w1 |` (- conf_names ds)"
    by blast
  have "run_deferred (am # ds) e w = (e, w')"
    by (simp add: teardown_started [OF pid] w'(1))
  moreover have "kills w' = kills w @ term_signals (am # ds)"
    using w'(3) pid by (simp add: term_signals_def)
  moreover have "files w' = files w |` (- conf_names (am # ds))"
    unfolding w'(4) by (auto simp: conf_names_def restrict_map_def fun_eq_iff)
  ultimately show ?case using w'(2) by simp
qed

lemma start_loop_result:
  "start_loop as lch T w ds = (e, as', T', w', ds') \<Longrightarrow>
     ds' = rev (map (started lch) (takeWhile (starts lch) as)) @ ds \<and>
     files w' = files w \<and> kills w' = kills w \<and>
     e = (if list_all (starts lch) as then Returned else Goexit) \<and>
     (e = Goexit \<longrightarrow> failed T')"
proof (induction as arbitrary: T w ds e as' T' w' ds')
  case Nil
  then show ?case by simp
next
  case (Cons am as)
  show ?case
  proof (cases "starts lch am")
    case True
    obtain e1 as1 T1 w1 ds1 where
      rest: "start_loop as lch T (Sleep (100 * Millisecond) w) (started lch am # ds) = (e1, as1, T1, w1, ds1)"
      by (metis prod_cases5)
    from Cons.prems have res: "e = e1" "T' = T1" "w' = w1" "ds' = ds1"
      by (simp_all add: Start_starts [OF True] rest)
    from Cons.IH [OF rest] True show ?thesis
      unfolding res by (simp add: Sleep_def)
  next
    case False
    from Start_not_starts [OF False, of T w] obtain msg where
      "Start am (lch am) T w = (Goexit, am, Fatal T msg, w)" by blast
    with Cons.prems False show ?thesis
      by (auto simp: Fatal_def)
  qed
qed

lemma conf_names_started:
  "conf_names (rev (map (started lch) xs)) = conf_names xs"
  by (auto simp: conf_names_def Name_started image_iff)

lemma term_signals_started:
  "am \<in> set xs \<Longrightarrow> starts lch am \<Longrightarrow>
   \<exists>pid. lch am = Inr pid \<and> (pid, SIGTERM) \<in> set (term_signals (rev (map (started lch) xs)))"
  by (cases "lch am") (force simp: term_signals_def starts_def started_def)+

text \<open>
  C1 (as amended). \<open>Run\<close> defers the teardown of an instance when the \<open>Start\<close> of that
  instance has returned. When the goroutine of \<open>Run\<close> comes to its end, because \<open>Run\<close>
  returns or because the \<open>Start\<close> of an instance fails, the termination signal has been
  sent to every instance that \<open>Run\<close> started and its configuration file has been removed,
  whatever the actions and the collectors have recorded on the test by then. When the
  \<open>Start\<close> of an instance fails, \<open>Run\<close> ends there with the test marked failed; the
  signals sent are those of the instances started before it, and the only files removed are
  theirs, so the configuration file of the instance whose \<open>Start\<close> failed, and of every
  instance after it, stays.
\<close>

theorem Run_tears_down_what_it_started:
  assumes run: "Run P E opts as colls T w = (e, as', T', w')"
      and ended: "e \<noteq> Blocked" "e \<noteq> Crashed"
  shows "(\<forall>am \<in> set (takeWhile (starts (launch E)) as).
            files w' (Name (confFile am)) = None \<and>
            (\<exists>pid. launch E am = Inr pid \<and> (pid, SIGTERM) \<in> set (kills w'))) \<and>
         (\<not> list_all (starts (launch E)) as \<longrightarrow>
            e = Goexit \<and> failed T' \<and>
            kills w' = kills w @ term_signals (rev (map (started (launch E)) (takeWhile (starts (launch E)) as))) \<and>
            files w' = files w |` (- conf_names (takeWhile (starts (launch E)) as)))"
proof -
  let ?lch = "launch E"
  let ?pre = "takeWhile (starts ?lch) as"
  let ?ds = "rev (map (started ?lch) ?pre)"
  obtain e1 as1 T1 w1 ds where sl: "start_loop as ?lch T w [] = (e1, as1, T1, w1, ds)"
    by (metis prod_cases5)
  from start_loop_result [OF sl] have
    ds: "ds = ?ds" and f1: "files w1 = files w" and k1: "kills w1 = kills w" and
    e1: "e1 = (if list_all (starts ?lch) as then Returned else Goexit)" and
    fl: "e1 = Goexit \<longrightarrow> failed T1"
    by simp_all
  have all: "\<forall>am\<in>set ds. Process (cmd am) \<noteq> None"
    unfolding ds using starts_started [of ?lch] by (auto dest: set_takeWhileD)
  have torn: "\<exists>w4. run_deferred ds x v = (x, w4) \<and> clock w4 = clock v \<and>
      kills w4 = kills v @ term_signals ds \<and> files w4 = files v |` (- conf_names ds)" for x v
    by (rule run_deferred_started [OF all])
  have fin: "\<exists>v::OS. kills w' = kills v @ term_signals ds \<and> files w' = files v |` (- conf_names ds)"
  proof (cases "e1 = Returned")
    case True
    obtain e2 T2 w2 where ra: "runActions E T1 w1 = (e2, T2, w2)" by (metis prod_cases3)
    have e2: "e2 = Returned"
    proof (rule ccontr)
      assume "e2 \<noteq> Returned"
      with run sl ra True have "e = joined e2"
        by (cases e2) (simp_all add: Run_def)
      with \<open>e2 \<noteq> Returned\<close> ended show False by (cases e2) simp_all
    qed
    from torn [of Returned "wait_deadline P opts (latest E) colls w2"] obtain w4 where w4:
      "run_deferred ds Returned (wait_deadline P opts (latest E) colls w2) = (Returned, w4)"
      "kills w4 = kills (wait_deadline P opts (latest E) colls w2) @ term_signals ds"
      "files w4 = files (wait_deadline P opts (latest E) colls w2) |` (- conf_names ds)"
      by blast
    from run sl ra True e2 w4(1) have "w' = w4"
      by (simp add: Run_def Let_def)
    with w4(2,3) show ?thesis by metis
  next
    case False
    with e1 have g: "e1 = Goexit" by (simp split: if_splits)
    from torn [of Goexit w1] obtain w4 where w4:
      "run_deferred ds Goexit w1 = (Goexit, w4)"
      "kills w4 = kills w1 @ term_signals ds" "files w4 = files w1 |` (- conf_names ds)"
      by blast
    from run sl g w4(1) have "w' = w4"
      by (simp add: Run_def)
    with w4(2,3) show ?thesis by metis
  qed
  have part1: "\<forall>am \<in> set ?pre. files w' (Name (confFile am)) = None \<and>
            (\<exists>pid. ?lch am = Inr pid \<and> (pid, SIGTERM) \<in> set (kills w'))"
  proof
    fix am assume am: "am \<in> set ?pre"
    then have st: "starts ?lch am" by (auto dest: set_takeWhileD)
    from fin obtain v :: OS where v: "kills w' = kills v @ term_signals ds"
      "files w' = files v |` (- conf_names ds)" by blast
    have "Name (confFile am) \<in> conf_names ds"
      unfolding ds conf_names_started using am by (auto simp: conf_names_def)
    then have "files w' (Name (confFile am)) = None"
      unfolding v(2) by simp
    moreover from term_signals_started [OF am st] have
      "\<exists>pid. ?lch am = Inr pid \<and> (pid, SIGTERM) \<in> set (kills w')"
      unfolding v(1) ds by auto
    ultimately show "files w' (Name (confFile am)) = None \<and>
            (\<exists>pid. ?lch am = Inr pid \<and> (pid, SIGTERM) \<in> set (kills w'))" ..
  qed
  have part2: "e = Goexit \<and> failed T' \<and> kills w' = kills w @ term_signals ?ds \<and>
      files w' = files w |` (- conf_names ?pre)" if "\<not> list_all (starts ?lch) as"
  proof -
    from that e1 have g: "e1 = Goexit" by simp
    from torn [of Goexit w1] obtain w4 where w4:
      "run_deferred ds Goexit w1 = (Goexit, w4)"
      "kills w4 = kills w1 @ term_signals ds" "files w4 = files w1 |` (- conf_names ds)"
      by blast
    from run sl g w4(1) have "e = Goexit" "T' = T1" "w' = w4"
      by (simp_all add: Run_def)
    with w4 fl g f1 k1 show ?thesis
      unfolding ds conf_names_started by simp
  qed
  from part1 part2 show ?thesis by blast
qed

text \<open>
  When a closure ends its goroutine or panics, the goroutine of \<open>Run\<close> does not come to
  its end, and the machine stays as the closures left it: nothing is torn down.
\<close>

lemma Run_without_end:
  assumes "start_loop as (launch E) T w [] = (Returned, as1, T1, w1, ds)"
      and "runActions E T1 w1 = (e2, T2, w2)" and "e2 \<noteq> Returned"
  shows "Run P E opts as colls T w = (joined e2, as1, T2, w2) \<and>
         (joined e2 = Blocked \<or> joined e2 = Crashed)"
  using assms by (cases e2) (simp_all add: Run_def)

text \<open>
  A run of C1's theorem: of two instances the first is launched and the second is not. The
  first gets its signal and loses its file, the second keeps its file.
\<close>

theorem Run_tears_down_what_it_started_witness:
  "(case Run exact (quiet_env only_a) zero_opts [am_a, am_b] [] fresh_T w_ab of
      (e, as', T', w') \<Rightarrow>
        e = Goexit \<and> files w' ''cfg_a'' = None \<and> (7, SIGTERM) \<in> set (kills w') \<and>
        files w' ''cfg_b'' = Some ''y'')"
proof -
  obtain e as' T' w' where
    run: "Run exact (quiet_env only_a) zero_opts [am_a, am_b] [] fresh_T w_ab = (e, as', T', w')"
    by (metis prod_cases4)
  have pre: "takeWhile (starts (launch (quiet_env only_a))) [am_a, am_b] = [am_a]"
    by (simp add: starts_def quiet_env_def only_a_def am_a_def am_b_def)
  have nall: "\<not> list_all (starts (launch (quiet_env only_a))) [am_a, am_b]"
    by (simp add: starts_def quiet_env_def only_a_def am_a_def am_b_def)
  have la: "launch (quiet_env only_a) am_a = Inr 7"
    by (simp add: quiet_env_def only_a_def am_a_def)
  have res: "e = Goexit"
    using run
    by (simp add: Run_def Start_def Cmd_Start_def quiet_env_def only_a_def am_a_def am_b_def
        teardown_def Terminate_def Kill_def split: prod.splits)
  then have ended: "e \<noteq> Blocked" "e \<noteq> Crashed" by simp_all
  from Run_tears_down_what_it_started [OF run ended] pre nall la have
    "files w' (Name (confFile am_a)) = None" "(7, SIGTERM) \<in> set (kills w')"
    "e = Goexit" "files w' = files w_ab |` (- conf_names [am_a])"
    by auto
  then have "e = Goexit \<and> files w' ''cfg_a'' = None \<and> (7, SIGTERM) \<in> set (kills w') \<and>
        files w' ''cfg_b'' = Some ''y''"
    by (simp add: am_a_def w_ab_def conf_names_def)
  with run show ?thesis by simp
qed

text \<open>
  C1 as it is stated fails: an instance is constructed, which creates its configuration
  file, and the operating system cannot launch it. \<open>Run\<close> ends in \<open>Start\<close>; no signal is
  sent and the file is still there afterwards.
\<close>

theorem Run_failed_start_keeps_artifact:
  "(case new_Alertmanager ''route'' ''cfg_a'' ''a:1'' fresh_T empty_OS of
      (am, T1, w1) \<Rightarrow>
        (case Run exact (quiet_env (\<lambda>am. Inl ''exec: not found'')) zero_opts [am] [] T1 w1 of
           (e, as', T', w') \<Rightarrow>
             e = Goexit \<and> files w' ''cfg_a'' = Some ''route'' \<and> kills w' = []))"
  by (simp add: new_Alertmanager_def UpdateConfig_def WriteString_def write_at_def Let_def
      Run_def Start_def Cmd_Start_def quiet_env_def fresh_T_def empty_OS_def Log_def Fatal_def)

section \<open>Writing the configuration\<close>

text \<open>
  A successful \<open>UpdateConfig\<close> on a file that the instance alone has written (the
  descriptor's offset is the file's length) puts the document behind what the file holds.
  It sends no signal.
\<close>

lemma UpdateConfig_written:
  assumes "files w (Name (confFile am)) = Some old" and "pos (confFile am) = length old"
  shows "\<exists>am' w'. UpdateConfig am conf None None T w = (am', T, w') \<and>
           files w' (Name (confFile am)) = Some (old @ conf) \<and>
           pos (confFile am') = length (old @ conf) \<and>
           Name (confFile am') = Name (confFile am) \<and> kills w' = kills w"
  using assms by (simp add: UpdateConfig_def WriteString_def write_at_def Let_def)

text \<open>
  C2. The claim is that after \<open>UpdateConfig\<close> the file holds the document and nothing
  else, however often it was written before; the comment of the function says that it
  rewrites the file. The code writes at the descriptor's offset and never truncates or
  seeks: an instance constructed with the configuration \<open>a\<close> and reconfigured with \<open>b\<close>
  has a file that holds \<open>ab\<close>. No signal is sent and the test is not marked failed.
\<close>

theorem UpdateConfig_second_write_appends:
  "(case new_Alertmanager ''a'' ''cfg_a'' ''a:1'' fresh_T empty_OS of
      (am, T1, w1) \<Rightarrow>
        (case UpdateConfig am ''b'' None None T1 w1 of
           (am', T2, w2) \<Rightarrow>
             files w1 ''cfg_a'' = Some ''a'' \<and> files w2 ''cfg_a'' = Some ''ab'' \<and>
             failed T2 = False \<and> kills w2 = []))"
  by (simp add: new_Alertmanager_def UpdateConfig_def WriteString_def write_at_def Let_def
      fresh_T_def empty_OS_def Log_def)

section \<open>The scheduled closures\<close>

lemma slice_at_new: "slice_at new_actions k = []"
  by (simp add: slice_at_def new_actions_def)

text \<open>
  C6. \<open>SetSilence\<close> registers a closure on the silence handle. When the closure is
  called and the server answers with an identifier, the handle's \<open>ID\<close> becomes that
  identifier; nothing else in memory changes and the test's record is untouched. When the
  server answers with an error, memory is unchanged (no assignment to \<open>ID\<close>), the error
  is logged and the test is marked failed.
\<close>

theorem SetSilence_assigns_on_success_only:
  "slice_at (SetSilence am tm sil new_actions) tm = [SetSilenceClosure (addr am) sil] \<and>
   (case answer A (SetSilenceReq (addr am) (nativeSilence A opts (silences (mem s) sil))) of
      Inr sid \<Rightarrow>
        silences (mem (fire A opts (SetSilenceClosure (addr am) sil) s)) =
          (silences (mem s))(sil := (silences (mem s) sil)\<lparr>ID := sid\<rparr>) \<and>
        ID (silences (mem (fire A opts (SetSilenceClosure (addr am) sil) s)) sil) = sid \<and>
        tst (fire A opts (SetSilenceClosure (addr am) sil) s) = tst s
    | Inl err \<Rightarrow>
        mem (fire A opts (SetSilenceClosure (addr am) sil) s) = mem s \<and>
        tst (fire A opts (SetSilenceClosure (addr am) sil) s) = Error (tst s) err \<and>
        failed (tst (fire A opts (SetSilenceClosure (addr am) sil) s)) \<and>
        logged (tst (fire A opts (SetSilenceClosure (addr am) sil) s)) = logged (tst s) @ [err])"
  by (simp add: SetSilence_def slice_at_Do slice_at_new Let_def Error_def Log_def
      split: sum.split)

text \<open>
  What \<open>Push\<close> fixes when it is called and what is left to the time of sending. The
  closure holds the native alerts that \<open>nativeAlert\<close> made of the test alerts in the memory
  \<open>m\<close> of the call; it never calls \<open>nativeAlert\<close>. What the server receives is their
  encoding in the memory \<open>m'\<close> of the time of sending. Whether that encoding depends on
  \<open>m'\<close>, that is, whether a native alert shares anything with its test alert, is decided
  by \<open>nativeAlert\<close>, which the source at hand does not contain.
\<close>

lemma Push_sends:
  "\<exists>c. slice_at (Push A opts am tm as m new_actions) tm = [c] \<and>
       sent (fire A opts c (s\<lparr>mem := m'\<rparr>)) =
         sent s @ [PushAlerts (addr am)
                     (map (\<lambda>a. encode A m' (nativeAlert A opts (alerts m a))) as)]"
proof -
  let ?c = "PushClosure (addr am) (map (\<lambda>a. nativeAlert A opts (alerts m a)) as)"
  have "slice_at (Push A opts am tm as m new_actions) tm = [?c]"
    by (simp add: Push_def slice_at_Do slice_at_new)
  moreover have "sent (fire A opts ?c (s\<lparr>mem := m'\<rparr>)) =
         sent s @ [PushAlerts (addr am)
                     (map (\<lambda>a. encode A m' (nativeAlert A opts (alerts m a))) as)]"
    by (simp add: Let_def comp_def split: sum.split)
  ultimately show ?thesis by blast
qed

section \<open>Signals need a process\<close>

text \<open>
  C10. \<open>Terminate\<close> and \<open>Reload\<close> return when the command has a process and panic
  when it has none. A newly constructed instance has none, so both panic on it; after
  \<open>Start\<close> both return if \<open>Start\<close> returned, which it does when the operating system
  launched the command, and both still panic if \<open>Start\<close> failed.
\<close>

theorem Terminate_Reload_need_started_process:
  "fst (Terminate am w) = (if Process (cmd am) = None then Panicked else Returned) \<and>
   fst (Reload am w) = (if Process (cmd am) = None then Panicked else Returned) \<and>
   (case new_Alertmanager conf name a T w of
      (am0, T', w') \<Rightarrow>
        Process (cmd am0) = None \<and>
        fst (Terminate am0 w') = Panicked \<and> fst (Reload am0 w') = Panicked \<and>
        (case Start am0 l T' w' of
           (e, am1, T1, w1) \<Rightarrow>
             (e = Returned) = (\<exists>pid. l = Inr pid) \<and>
             fst (Terminate am1 w1) = (if e = Returned then Returned else Panicked) \<and>
             fst (Reload am1 w1) = (if e = Returned then Returned else Panicked)))"
  by (cases l)
    (simp_all add: Terminate_def Reload_def Kill_def new_Alertmanager_def UpdateConfig_def
      WriteString_def Let_def Start_def Cmd_Start_def split: option.split prod.split)

section \<open>Waiting for the last expectation\<close>

lemma latest_loop_foldl:
  fixes lat :: "'c \<Rightarrow> float64"
  shows "foldl (\<lambda>latest coll. if lat coll > latest then lat coll else latest) a colls =
     Max (insert a (lat ` set colls))"
proof (induction colls arbitrary: a)
  case Nil
  show ?case by simp
next
  case (Cons c cs)
  have "Max (insert (if lat c > a then lat c else a) (lat ` set cs)) =
        Max (insert a (insert (lat c) (lat ` set cs)))"
  proof (cases "set cs = {}")
    case True
    then show ?thesis by (auto simp: max_def)
  next
    case False
    then show ?thesis by (auto simp: max_def)
  qed
  with Cons.IH [of "if lat c > a then lat c else a"] show ?case by simp
qed

lemma latest_loop_max:
  "latest_loop lat colls = max 0 (max_latest lat colls)"
  unfolding latest_loop_def latest_loop_foldl max_latest_def
  by (cases "colls = []") simp_all

lemma int64_of_float64_0: "int64_of_float64 P 0 = 0"
  by (simp add: int64_of_float64_def trunc_def)

lemma expandTime_0: "round64 P 0 = 0 \<Longrightarrow> expandTime P opts 0 = baseTime opts"
  by (simp add: expandTime_def fmul_def int64_of_float64_0 Time_Add_def)

lemma Sleep_elapsed: "t \<le> clock w \<Longrightarrow> Sleep (Time_Sub t (clock w)) w = w"
  by (simp add: Sleep_def sint_Time_Sub)

lemma check_loop_logged: "check_loop chk colls T = T\<lparr>logged := logged T @ map chk colls\<rparr>"
  unfolding check_loop_def
  by (induction colls arbitrary: T) (simp_all add: Log_def)

text \<open>
  C9. Let the starts and the actions have returned, at the time \<open>clock w2\<close>. If the greatest
  \<open>latest()\<close> of the collectors (zero when there are none) expands to a time that is not
  after \<open>clock w2\<close>, then the sleep before the checks takes no time and changes nothing,
  and \<open>Run\<close> goes on: it logs \<open>check()\<close> of every collector and the processes'
  output, and ends through the deferred teardowns. The other two hypotheses say that zero is
  rounded to zero and that the test's base time, taken when the test was made, is not after
  \<open>clock w2\<close>; they matter when every collector's \<open>latest()\<close> is negative, since the
  loop starts from zero.
\<close>

theorem Run_goes_on_when_deadline_elapsed:
  assumes r0: "round64 P 0 = 0"
      and base: "baseTime opts \<le> clock w2"
      and elapsed: "expandTime P opts (max_latest (latest E) colls) \<le> clock w2"
      and sl: "start_loop as (launch E) T w [] = (Returned, as1, T1, w1, ds)"
      and ra: "runActions E T1 w1 = (Returned, T2, w2)"
  shows "wait_deadline P opts (latest E) colls w2 = w2 \<and>
         Run P E opts as colls T w =
           (case run_deferred ds Returned w2 of
              (e, w4) \<Rightarrow>
                (e, as1,
                 output_loop (printed E) as1 (T2\<lparr>logged := logged T2 @ map (check E) colls\<rparr>), w4))"
proof -
  have "expandTime P opts (latest_loop (latest E) colls) \<le> clock w2"
  proof (cases "0 \<le> max_latest (latest E) colls")
    case True
    then show ?thesis using elapsed by (simp add: latest_loop_max max_def)
  next
    case False
    then have "latest_loop (latest E) colls = 0" by (simp add: latest_loop_max max_def)
    then show ?thesis using base by (simp add: expandTime_0 [OF r0])
  qed
  then have wait: "wait_deadline P opts (latest E) colls w2 = w2"
    by (simp add: wait_deadline_def Sleep_elapsed)
  show ?thesis
    by (simp add: wait Run_def sl ra Let_def check_loop_logged)
qed

text \<open>A run for C9's theorem: one collector expecting up to second 2, and the actions are
  over at second 3.\<close>

theorem Run_goes_on_when_deadline_elapsed_witness:
  "wait_deadline exact zero_opts (\<lambda>c. 2) [()] (empty_OS\<lparr>clock := 3000000000\<rparr>) =
     empty_OS\<lparr>clock := 3000000000\<rparr> \<and>
   Run exact ((quiet_env only_a)\<lparr>latest := \<lambda>c. 2, check := \<lambda>c. ''ok'',
         runActions := \<lambda>T w. (Returned, T, w\<lparr>clock := 3000000000\<rparr>)\<rparr>)
       zero_opts [] [()] fresh_T empty_OS =
     (Returned, [], fresh_T\<lparr>logged := [''ok'']\<rparr>, empty_OS\<lparr>clock := 3000000000\<rparr>)"
proof -
  let ?E = "(quiet_env only_a)\<lparr>latest := \<lambda>c. 2, check := \<lambda>c. ''ok'',
         runActions := \<lambda>T w. (Returned, T, w\<lparr>clock := 3000000000\<rparr>)\<rparr>"
  let ?w2 = "empty_OS\<lparr>clock := 3000000000\<rparr>"
  have r0: "round64 exact 0 = 0" by (simp add: exact_def)
  have base: "baseTime zero_opts \<le> clock ?w2" by (simp add: zero_opts_def)
  have ex: "expandTime exact zero_opts 2 = 2000000000"
    by (simp add: expandTime_def exact_def fmul_def float64_of_int64_def Second_def
        int64_of_float64_def trunc_def Time_Add_def zero_opts_def)
  have elapsed: "expandTime exact zero_opts (max_latest (latest ?E) [()]) \<le> clock ?w2"
    by (simp add: max_latest_def ex)
  have sl: "start_loop [] (launch ?E) fresh_T empty_OS [] = (Returned, [], fresh_T, empty_OS, [])"
    by simp
  have ra: "runActions ?E fresh_T empty_OS = (Returned, fresh_T, ?w2)"
    by (simp add: quiet_env_def)
  have l: "latest ?E = (\<lambda>c. 2)" "check ?E = (\<lambda>c. ''ok'')" by simp_all
  from Run_goes_on_when_deadline_elapsed [OF r0 base elapsed sl ra]
  show ?thesis
    unfolding l by (simp add: output_loop_def fresh_T_def)
qed

section \<open>The virtual clock: there and back\<close>

text \<open>The machine that rounds nothing meets what is assumed of the rounding, whatever it
  does with conversions out of range.\<close>

lemma ieee_rounding_exact: "ieee_rounding (exact\<lparr>overflow64 := ov\<rparr>)"
  by (simp add: ieee_rounding_def exact_def)

lemma ieee_rounding_exact0: "ieee_rounding exact"
  by (simp add: ieee_rounding_def exact_def)

text \<open>Discarding the fraction moves a number towards zero, by less than one.\<close>

lemma trunc_abs_le: "\<bar>real_of_int (trunc y)\<bar> \<le> \<bar>y\<bar>"
proof (cases "0 \<le> y")
  case True
  then have "trunc y = \<lfloor>y\<rfloor>" by (simp add: trunc_def)
  moreover have "0 \<le> \<lfloor>y\<rfloor>" using True by simp
  moreover have "real_of_int \<lfloor>y\<rfloor> \<le> y" by (rule of_int_floor_le)
  ultimately show ?thesis using True by simp
next
  case False
  then have "trunc y = \<lceil>y\<rceil>" by (simp add: trunc_def)
  moreover have "\<lceil>y\<rceil> \<le> 0" using False by (simp add: ceiling_le_iff)
  moreover have "y \<le> real_of_int \<lceil>y\<rceil>" by (rule le_of_int_ceiling)
  ultimately show ?thesis using False by simp
qed

lemma trunc_diff: "\<bar>real_of_int (trunc y) - y\<bar> \<le> 1"
proof (cases "0 \<le> y")
  case True
  then have "trunc y = \<lfloor>y\<rfloor>" by (simp add: trunc_def)
  then show ?thesis by simp linarith
next
  case False
  then have "trunc y = \<lceil>y\<rceil>" by (simp add: trunc_def)
  then show ?thesis by simp linarith
qed

lemma float64_Second:
  assumes "ieee_rounding P"
  shows "float64_of_int64 P Second = 1000000000"
proof -
  have "\<bar>1000000000 :: int\<bar> \<le> 2 ^ 53" by simp
  with assms have "round64 P (real_of_int 1000000000) = real_of_int 1000000000"
    unfolding ieee_rounding_def by blast
  then show ?thesis by (simp add: float64_of_int64_def sint_Second)
qed

lemma round64_error:
  assumes "ieee_rounding P" and "\<bar>r\<bar> \<le> 2 ^ 1023"
  shows "\<bar>round64 P r - r\<bar> \<le> \<bar>r\<bar> / 2 ^ 53 + 1 / 10 ^ 30"
proof -
  from assms have "\<bar>round64 P r - r\<bar> \<le> \<bar>r\<bar> / 2 ^ 53 + 1 / 2 ^ 1075"
    unfolding ieee_rounding_def by blast
  moreover have "(1::real) / 2 ^ 1075 \<le> 1 / 10 ^ 30" by simp
  ultimately show ?thesis by linarith
qed

lemma int64_in_range:
  assumes "- (2 ^ 63) \<le> trunc v" and "trunc v < 2 ^ 63"
  shows "sint (int64_of_float64 P v) = trunc v"
  using assms by (simp add: int64_of_float64_def sint_word64_of_int)

text \<open>
  The base time drops out of the round trip: \<open>Add\<close> and \<open>Sub\<close> cancel, since the
  difference is the duration that was added and so fits the type.
\<close>

lemma expand_relative_roundtrip:
  "relativeTime P opts (expandTime P opts x) =
     fdiv P (float64_of_int64 P (int64_of_float64 P (fmul P x (float64_of_int64 P Second))))
            (float64_of_int64 P Second)"
proof -
  let ?d = "int64_of_float64 P (fmul P x (float64_of_int64 P Second))"
  have "sint (Time_Sub (baseTime opts + sint ?d) (baseTime opts)) = sint ?d"
    using sint_ge [of ?d] sint_lt [of ?d] by (simp add: sint_Time_Sub)
  then have "Time_Sub (baseTime opts + sint ?d) (baseTime opts) = ?d"
    by (rule signed_word_eqI)
  then show ?thesis
    by (simp add: relativeTime_def expandTime_def Time_Add_def)
qed

text \<open>
  The rounding to 53 bits. The exponent of a number other than zero is the integer part of
  its binary logarithm; it is the one integer \<open>k\<close> with \<open>2 ^ k \<le> \<bar>r\<bar> < 2 ^ (k + 1)\<close>.
\<close>

lemma floor_log2:
  assumes "r \<noteq> 0"
  shows "2 powr real_of_int \<lfloor>log 2 \<bar>r\<bar>\<rfloor> \<le> \<bar>r\<bar>"
    and "\<bar>r\<bar> < 2 powr (real_of_int \<lfloor>log 2 \<bar>r\<bar>\<rfloor> + 1)"
proof -
  have p: "0 < \<bar>r\<bar>" using assms by simp
  have c: "2 powr log 2 \<bar>r\<bar> = \<bar>r\<bar>" using p by simp
  have "2 powr real_of_int \<lfloor>log 2 \<bar>r\<bar>\<rfloor> \<le> 2 powr log 2 \<bar>r\<bar>"
    by (rule powr_mono) simp_all
  then show "2 powr real_of_int \<lfloor>log 2 \<bar>r\<bar>\<rfloor> \<le> \<bar>r\<bar>"
    unfolding c .
  have "log 2 \<bar>r\<bar> < real_of_int \<lfloor>log 2 \<bar>r\<bar>\<rfloor> + 1" by linarith
  then have "2 powr log 2 \<bar>r\<bar> < 2 powr (real_of_int \<lfloor>log 2 \<bar>r\<bar>\<rfloor> + 1)"
    by (rule powr_less_mono) simp
  then show "\<bar>r\<bar> < 2 powr (real_of_int \<lfloor>log 2 \<bar>r\<bar>\<rfloor> + 1)"
    unfolding c .
qed

lemma floor_log2_unique:
  assumes "2 powr real_of_int k \<le> \<bar>r\<bar>" and "\<bar>r\<bar> < 2 powr (real_of_int k + 1)"
  shows "\<lfloor>log 2 \<bar>r\<bar>\<rfloor> = k"
proof -
  have "0 < 2 powr real_of_int k" by simp
  then have p: "0 < \<bar>r\<bar>" using assms(1) by linarith
  have a: "real_of_int k \<le> log 2 \<bar>r\<bar>" using assms(1) p by (simp add: le_log_iff)
  have b: "log 2 \<bar>r\<bar> < real_of_int k + 1" using assms(2) p by (simp add: log_less_iff)
  show ?thesis using a b by (rule floor_unique)
qed

lemma powr_two_shift: "2 powr (real_of_int (e - 52)) * 2 ^ 52 = 2 powr real_of_int e"
proof -
  have "2 powr (real_of_int (e - 52)) * 2 powr (real (52::nat)) = 2 powr (real_of_int (e - 52) + real (52::nat))"
    by (simp only: powr_add)
  also have "real_of_int (e - 52) + real (52::nat) = real_of_int e" by simp
  finally have a: "2 powr (real_of_int (e - 52)) * 2 powr (real (52::nat)) = 2 powr real_of_int e" .
  have b: "2 powr real (52::nat) = (2::real) ^ 52" by (rule powr_realpow) simp
  show ?thesis using a unfolding b .
qed

text \<open>
  The rounding of \<open>r\<close> is \<open>q * m\<close>, where \<open>q\<close> is the spacing at \<open>r\<close> and the integer \<open>m\<close>
  has 53 bits, or is \<open>2 ^ 53\<close> when \<open>r\<close> is rounded up to the next power of two.
\<close>

lemma round53_decomp:
  assumes "r \<noteq> 0"
  obtains q m where "0 < q" and "q = 2 powr real_of_int (\<lfloor>log 2 \<bar>r\<bar>\<rfloor> - 52)"
    and "m = round (r / q)" and "round53 r = q * real_of_int m"
    and "q * 2 ^ 52 \<le> \<bar>r\<bar>" and "\<bar>r\<bar> < q * 2 ^ 53"
    and "2 ^ 52 \<le> \<bar>m\<bar>" and "\<bar>m\<bar> \<le> 2 ^ 53"
    and "\<bar>q * real_of_int m - r\<bar> \<le> q / 2"
proof -
  define e where "e = \<lfloor>log 2 \<bar>r\<bar>\<rfloor>"
  define q where "q = 2 powr real_of_int (e - 52)"
  define u where "u = r / q"
  define m where "m = round u"
  have q: "0 < q" by (simp add: q_def)
  have qe: "q * 2 ^ 52 = 2 powr real_of_int e"
    unfolding q_def by (rule powr_two_shift)
  have lo: "q * 2 ^ 52 \<le> \<bar>r\<bar>"
    unfolding qe e_def by (rule floor_log2 [OF assms])
  have "2 powr (real_of_int e + 1) = 2 powr real_of_int e * 2"
    by (simp add: powr_add)
  also have "\<dots> = q * 2 ^ 53" unfolding qe [symmetric] by simp
  finally have qe1: "2 powr (real_of_int e + 1) = q * 2 ^ 53" .
  have hi: "\<bar>r\<bar> < q * 2 ^ 53"
    unfolding qe1 [symmetric] e_def by (rule floor_log2 [OF assms])
  have ru: "r = q * u" using q by (simp add: u_def)
  have au: "\<bar>r\<bar> = q * \<bar>u\<bar>" unfolding ru using q by (simp add: abs_mult)
  have ulo: "2 ^ 52 \<le> \<bar>u\<bar>" using lo q unfolding au by (simp add: mult.commute)
  have uhi: "\<bar>u\<bar> < 2 ^ 53" using hi q unfolding au by simp
  have mu: "\<bar>real_of_int m - u\<bar> \<le> 1 / 2"
    unfolding m_def by (rule of_int_round_abs_le)
  have ulo': "4503599627370496 \<le> \<bar>u\<bar>" using ulo by simp
  have uhi': "\<bar>u\<bar> < 9007199254740992" using uhi by simp
  have "4503599627370495 < \<bar>real_of_int m\<bar>" using mu ulo' by linarith
  then have "4503599627370495 < real_of_int \<bar>m\<bar>" by simp
  then have "4503599627370495 < \<bar>m\<bar>" by linarith
  then have mlo: "2 ^ 52 \<le> \<bar>m\<bar>" by simp
  have "\<bar>real_of_int m\<bar> < 9007199254740993" using mu uhi' by linarith
  then have "real_of_int \<bar>m\<bar> < 9007199254740993" by simp
  then have "\<bar>m\<bar> < 9007199254740993" by linarith
  then have mhi: "\<bar>m\<bar> \<le> 2 ^ 53" by simp
  have "q * real_of_int m - r = q * (real_of_int m - u)"
    unfolding ru by (simp add: algebra_simps)
  then have "\<bar>q * real_of_int m - r\<bar> = q * \<bar>real_of_int m - u\<bar>"
    using q by (simp add: abs_mult)
  also have "\<dots> \<le> q * (1 / 2)"
    using mu q by (intro mult_left_mono) simp_all
  finally have err: "\<bar>q * real_of_int m - r\<bar> \<le> q / 2" by simp
  have val: "round53 r = q * real_of_int m"
    using assms by (simp add: round53_def q_def e_def m_def u_def)
  show ?thesis
    by (rule that [OF q _ _ val lo hi mlo mhi err]) (simp_all add: q_def e_def m_def u_def)
qed

lemma powr_two_nat: "2 powr real_of_int (int n) = 2 ^ n"
proof -
  have "2 powr real n = (2::real) ^ n" by (rule powr_realpow) simp
  then show ?thesis by simp
qed

lemma round53_zero: "round53 0 = 0"
  by (simp add: round53_def)

lemma round53_relative: "\<bar>round53 r - r\<bar> \<le> \<bar>r\<bar> / 2 ^ 53"
proof (cases "r = 0")
  case True
  then show ?thesis by (simp add: round53_zero)
next
  case False
  then obtain q m where q: "0 < q" and val: "round53 r = q * real_of_int m"
    and lo: "q * 2 ^ 52 \<le> \<bar>r\<bar>" and err: "\<bar>q * real_of_int m - r\<bar> \<le> q / 2"
    by (rule round53_decomp)
  have "q / 2 = q * 2 ^ 52 / 2 ^ 53" by simp
  also have "\<dots> \<le> \<bar>r\<bar> / 2 ^ 53" using lo by (rule divide_right_mono) simp
  finally show ?thesis using err unfolding val by linarith
qed

text \<open>A multiple of the spacing at its own magnitude is left as it is.\<close>

lemma round53_fix:
  assumes q: "q = 2 powr real_of_int (k - 52)"
    and lo: "q * 2 ^ 52 \<le> \<bar>v\<bar>" and hi: "\<bar>v\<bar> < q * 2 ^ 53" and v: "v = q * real_of_int j"
  shows "round53 v = v"
proof -
  have q0: "0 < q" by (simp add: q)
  have qe: "q * 2 ^ 52 = 2 powr real_of_int k" unfolding q by (rule powr_two_shift)
  have "2 powr (real_of_int k + 1) = 2 powr real_of_int k * 2" by (simp add: powr_add)
  also have "\<dots> = q * 2 ^ 53" unfolding qe [symmetric] by simp
  finally have qe1: "2 powr (real_of_int k + 1) = q * 2 ^ 53" .
  have fl: "\<lfloor>log 2 \<bar>v\<bar>\<rfloor> = k"
    using lo hi unfolding qe qe1 [symmetric] by (rule floor_log2_unique)
  have "0 < q * 2 ^ 52" using q0 by simp
  then have v0: "v \<noteq> 0" using lo by auto
  have vq: "v / q = real_of_int j" using q0 v by simp
  have "round53 v = q * real_of_int (round (v / q))"
    using v0 by (simp add: round53_def fl q)
  also have "\<dots> = q * real_of_int j" unfolding vq round_of_int ..
  also have "\<dots> = v" unfolding v ..
  finally show ?thesis .
qed

lemma powr_two_le_nat:
  assumes "2 powr real_of_int e \<le> 2 ^ n"
  shows "e \<le> int n"
proof -
  have "2 powr real_of_int e \<le> 2 powr real_of_int (int n)"
    using assms unfolding powr_two_nat .
  moreover have "(1::real) < 2" by simp
  ultimately have "real_of_int e \<le> real_of_int (int n)"
    by (simp only: powr_le_cancel_iff)
  then show ?thesis by (simp only: of_int_le_iff)
qed

lemma powr_two_nonneg: "0 \<le> a \<Longrightarrow> 2 powr real_of_int a = 2 ^ nat a"
  using powr_two_nat [of "nat a"] by simp

lemma powr_two_succ: "2 powr real_of_int (k + 1 - 52) = 2 * 2 powr real_of_int (k - 52)"
proof -
  have "real_of_int (k + 1 - 52) = real_of_int (k - 52) + 1" by simp
  then show ?thesis by (simp only: powr_add) simp
qed

lemma round53_fix_top:
  assumes q: "q = 2 powr real_of_int (k - 52)" and v: "\<bar>v\<bar> = q * 2 ^ 53"
  shows "round53 v = v"
proof -
  have q0: "0 < q" by (simp add: q)
  define j :: int where "j = (if 0 \<le> v then 2 ^ 52 else - (2 ^ 52))"
  have q': "2 * q = 2 powr real_of_int (k + 1 - 52)"
    unfolding q by (rule powr_two_succ [symmetric])
  have lo: "2 * q * 2 ^ 52 \<le> \<bar>v\<bar>" unfolding v by simp
  have hi: "\<bar>v\<bar> < 2 * q * 2 ^ 53" unfolding v using q0 by simp
  have "v = 2 * q * real_of_int j"
    using v by (cases "0 \<le> v") (simp_all add: j_def)
  with q' lo hi show ?thesis by (rule round53_fix)
qed

lemma round53_idem: "round53 (round53 r) = round53 r"
proof (cases "r = 0")
  case True
  then show ?thesis by (simp add: round53_zero)
next
  case False
  then obtain q m where q0: "0 < q" and q: "q = 2 powr real_of_int (\<lfloor>log 2 \<bar>r\<bar>\<rfloor> - 52)"
    and val: "round53 r = q * real_of_int m"
    and mlo: "2 ^ 52 \<le> \<bar>m\<bar>" and mhi: "\<bar>m\<bar> \<le> 2 ^ 53"
    by (rule round53_decomp)
  have av: "\<bar>round53 r\<bar> = q * real_of_int \<bar>m\<bar>"
    unfolding val using q0 by (simp add: abs_mult)
  have lo: "q * 2 ^ 52 \<le> \<bar>round53 r\<bar>"
  proof -
    have "4503599627370496 \<le> \<bar>m\<bar>" using mlo by simp
    then have "4503599627370496 \<le> real_of_int \<bar>m\<bar>" by linarith
    then show ?thesis unfolding av using q0 by simp
  qed
  show ?thesis
  proof (cases "\<bar>m\<bar> = 2 ^ 53")
    case True
    then have "\<bar>round53 r\<bar> = q * 2 ^ 53" unfolding av by simp
    with q show ?thesis by (rule round53_fix_top)
  next
    case False
    then have "\<bar>m\<bar> < 9007199254740992" using mhi by simp
    then have "real_of_int \<bar>m\<bar> < 9007199254740992" by linarith
    then have hi: "\<bar>round53 r\<bar> < q * 2 ^ 53" unfolding av using q0 by simp
    from q lo hi val show ?thesis by (rule round53_fix)
  qed
qed

lemma round53_of_int:
  assumes "\<bar>n\<bar> \<le> 2 ^ 53"
  shows "round53 (real_of_int n) = real_of_int n"
proof (cases "n = 0")
  case True
  then show ?thesis by (simp add: round53_zero)
next
  case False
  define e where "e = \<lfloor>log 2 \<bar>real_of_int n\<bar>\<rfloor>"
  have nz: "real_of_int n \<noteq> 0" using False by simp
  obtain q m where q0: "0 < q" and q: "q = 2 powr real_of_int (e - 52)"
    and lo: "q * 2 ^ 52 \<le> \<bar>real_of_int n\<bar>" and hi: "\<bar>real_of_int n\<bar> < q * 2 ^ 53"
    unfolding e_def by (rule round53_decomp [OF nz])
  have one: "1 \<le> \<bar>real_of_int n\<bar>" using False by (simp flip: of_int_abs)
  have top: "\<bar>real_of_int n\<bar> \<le> 2 ^ 53"
  proof -
    have "real_of_int \<bar>n\<bar> \<le> real_of_int (2 ^ 53)" using assms by (simp only: of_int_le_iff)
    then show ?thesis by simp
  qed
  have "0 \<le> log 2 \<bar>real_of_int n\<bar>" using one by simp
  then have e0: "0 \<le> e" unfolding e_def by simp
  have qe: "q * 2 ^ 52 = 2 powr real_of_int e" unfolding q by (rule powr_two_shift)
  show ?thesis
  proof (cases "e \<le> 52")
    case True
    define j where "j = n * 2 ^ nat (52 - e)"
    have pn: "2 ^ nat (52 - e) = 2 powr real_of_int (52 - e)"
      using True by (intro powr_two_nonneg [symmetric]) simp
    have "q * 2 ^ nat (52 - e) = 2 powr real_of_int (e - 52) * 2 powr real_of_int (52 - e)"
      unfolding q pn ..
    also have "\<dots> = 2 powr (real_of_int (e - 52) + real_of_int (52 - e))"
      by (simp only: powr_add)
    also have "\<dots> = 1" by simp
    finally have inv: "q * 2 ^ nat (52 - e) = 1" .
    have "q * real_of_int j = real_of_int n * (q * 2 ^ nat (52 - e))"
      by (simp add: j_def)
    then have "real_of_int n = q * real_of_int j" unfolding inv by simp
    with q lo hi show ?thesis by (rule round53_fix)
  next
    case False
    have "2 powr real_of_int e \<le> 2 ^ 53"
      using lo top unfolding qe by linarith
    then have "e \<le> int 53" by (rule powr_two_le_nat)
    with False have e: "e = 53" by linarith
    have q2: "q = 2 powr real_of_int (52 - 52) * 2"
      unfolding q e using powr_two_succ [of 52] by simp
    then have q2': "q = 2" by simp
    have "\<bar>real_of_int n\<bar> = 1 * 2 ^ 53" using lo top unfolding q2' by simp
    moreover have "(1::real) = 2 powr real_of_int (52 - 52)" by simp
    ultimately show ?thesis by (rule round53_fix_top [rotated])
  qed
qed

lemma round53_grid:
  assumes "2 ^ n \<le> \<bar>round53 r\<bar>"
  shows "round53 r * 2 ^ 52 / 2 ^ n \<in> \<int>"
proof -
  have "(0::real) < 2 ^ n" by simp
  with assms have "round53 r \<noteq> 0" by linarith
  then have "r \<noteq> 0" by (auto simp add: round53_zero)
  then obtain q m where q0: "0 < q" and q: "q = 2 powr real_of_int (\<lfloor>log 2 \<bar>r\<bar>\<rfloor> - 52)"
    and val: "round53 r = q * real_of_int m" and mhi: "\<bar>m\<bar> \<le> 2 ^ 53"
    by (rule round53_decomp)
  define e where "e = \<lfloor>log 2 \<bar>r\<bar>\<rfloor>"
  have qe: "q * 2 ^ 52 = 2 powr real_of_int e" unfolding q e_def by (rule powr_two_shift)
  show ?thesis
  proof (cases "int n \<le> e")
    case True
    have "2 powr real_of_int e = 2 powr (real_of_int (e - int n) + real_of_int (int n))"
      by simp
    also have "\<dots> = 2 powr real_of_int (e - int n) * 2 powr real_of_int (int n)"
      by (simp only: powr_add)
    also have "\<dots> = 2 ^ nat (e - int n) * 2 ^ n"
    proof -
      have "0 \<le> e - int n" using True by simp
      then have "2 powr real_of_int (e - int n) = 2 ^ nat (e - int n)"
        by (rule powr_two_nonneg)
      then show ?thesis unfolding powr_two_nat by (rule arg_cong2 [where f = times]) rule
    qed
    finally have qn: "q * 2 ^ 52 = 2 ^ nat (e - int n) * 2 ^ n" unfolding qe .
    have "round53 r * 2 ^ 52 / 2 ^ n = real_of_int m * (q * 2 ^ 52) / 2 ^ n"
      unfolding val by (simp only: mult_ac)
    also have "\<dots> = real_of_int m * (2 ^ nat (e - int n) * 2 ^ n) / 2 ^ n"
      unfolding qn ..
    also have "\<dots> = real_of_int (m * 2 ^ nat (e - int n))" by simp
    finally show ?thesis by (simp only: Ints_of_int)
  next
    case False
    then have "e + 1 \<le> int n" by simp
    then have "real_of_int (e + 1) \<le> real_of_int (int n)" by (simp only: of_int_le_iff)
    then have "2 powr real_of_int (e + 1) \<le> 2 powr real_of_int (int n)"
      by (rule powr_mono) simp
    moreover have "2 powr real_of_int (e + 1) = q * 2 ^ 53"
      using qe by (simp add: powr_add)
    ultimately have le: "q * 2 ^ 53 \<le> 2 ^ n" unfolding powr_two_nat by simp
    have "real_of_int \<bar>m\<bar> \<le> real_of_int (2 ^ 53)" using mhi by (simp only: of_int_le_iff)
    then have "\<bar>real_of_int m\<bar> \<le> 2 ^ 53" by simp
    then have "q * \<bar>real_of_int m\<bar> \<le> q * 2 ^ 53" using q0 by (intro mult_left_mono) simp_all
    moreover have "\<bar>round53 r\<bar> = q * \<bar>real_of_int m\<bar>" unfolding val using q0 by (simp add: abs_mult)
    ultimately have "\<bar>round53 r\<bar> = 2 ^ n" using le assms by linarith
    then have "round53 r = 2 ^ n \<or> round53 r = - (2 ^ n)" by linarith
    then have "round53 r * 2 ^ 52 / 2 ^ n = real_of_int (2 ^ 52) \<or>
               round53 r * 2 ^ 52 / 2 ^ n = real_of_int (- (2 ^ 52))"
      by auto
    then show ?thesis by (auto simp only: Ints_of_int)
  qed
qed

lemma round53_binade:
  assumes "\<bar>r\<bar> \<le> 2 * 2 ^ n"
  shows "\<bar>round53 r - r\<bar> \<le> 2 ^ n / 2 ^ 53"
proof (cases "r = 0")
  case True
  then show ?thesis by (simp add: round53_zero)
next
  case False
  then obtain q m where q0: "0 < q" and q: "q = 2 powr real_of_int (\<lfloor>log 2 \<bar>r\<bar>\<rfloor> - 52)"
    and val: "round53 r = q * real_of_int m"
    and lo: "q * 2 ^ 52 \<le> \<bar>r\<bar>" and err: "\<bar>q * real_of_int m - r\<bar> \<le> q / 2"
    by (rule round53_decomp)
  define e where "e = \<lfloor>log 2 \<bar>r\<bar>\<rfloor>"
  have qe: "q * 2 ^ 52 = 2 powr real_of_int e" unfolding q e_def by (rule powr_two_shift)
  have "2 powr real_of_int e \<le> 2 ^ Suc n" using lo assms unfolding qe by simp
  then have e1: "e \<le> int (Suc n)" by (rule powr_two_le_nat)
  show ?thesis
  proof (cases "e \<le> int n")
    case True
    then have "real_of_int e \<le> real_of_int (int n)" by (simp only: of_int_le_iff)
    then have "2 powr real_of_int e \<le> 2 powr real_of_int (int n)"
      by (rule powr_mono) simp
    then have "q * 2 ^ 52 \<le> 2 ^ n" unfolding qe powr_two_nat .
    then have "q * 2 ^ 52 / 2 ^ 53 \<le> 2 ^ n / 2 ^ 53" by (rule divide_right_mono) simp
    moreover have "q * 2 ^ 52 / 2 ^ 53 = q / 2" by simp
    ultimately show ?thesis using err unfolding val by linarith
  next
    case False
    with e1 have e: "e = int (Suc n)" by linarith
    have "q * 2 ^ 52 = 2 * 2 ^ n" unfolding qe e powr_two_nat by simp
    then have eq: "\<bar>r\<bar> = q * 2 ^ 52" using lo assms by linarith
    define j :: int where "j = (if 0 \<le> r then 2 ^ 52 else - (2 ^ 52))"
    have lo': "q * 2 ^ 52 \<le> \<bar>r\<bar>" and hi': "\<bar>r\<bar> < q * 2 ^ 53"
      unfolding eq using q0 by simp_all
    have "r = q * real_of_int j"
      using eq by (cases "0 \<le> r") (simp_all add: j_def)
    with q lo' hi' have "round53 r = r" by (rule round53_fix)
    then show ?thesis by simp
  qed
qed

text \<open>The rounding to 53 bits has all that is assumed of binary64.\<close>

lemma binary64_rounding_binary53: "binary64_rounding binary53"
proof -
  have r: "round64 binary53 = round53" by (simp add: binary53_def)
  have "ieee_rounding binary53"
    unfolding ieee_rounding_def r
  proof (intro conjI allI impI)
    fix x :: real
    have "\<bar>round53 x - x\<bar> \<le> \<bar>x\<bar> / 2 ^ 53" by (rule round53_relative)
    moreover have "(0::real) \<le> 1 / 2 ^ 1075" by simp
    ultimately show "\<bar>round53 x - x\<bar> \<le> \<bar>x\<bar> / 2 ^ 53 + 1 / 2 ^ 1075" by linarith
  next
    fix n :: int
    assume "\<bar>n\<bar> \<le> 2 ^ 53"
    then show "round53 (real_of_int n) = real_of_int n" by (rule round53_of_int)
  qed
  moreover have "round53 r * 2 ^ 52 / 2 ^ n \<in> \<int>"
    if "\<bar>r\<bar> \<le> 2 ^ 1023 \<and> 2 ^ n \<le> \<bar>round53 r\<bar>" for r n
    using that by (intro round53_grid) blast
  moreover have "\<bar>round53 r - r\<bar> \<le> 2 ^ n / 2 ^ 53"
    if "\<bar>r\<bar> \<le> 2 * 2 ^ n \<and> n < 1023" for r and n :: nat
    using that by (intro round53_binade) blast
  ultimately show ?thesis
    unfolding binary64_rounding_def r
    by (intro conjI allI impI) (assumption, rule round53_idem, blast, blast)
qed

text \<open>
  The round trip under the rounding of binary64. A \<open>float64\<close> of magnitude \<open>2 ^ 53\<close> or more
  is an integer, so the conversion to \<open>int64\<close> and back loses nothing there.
\<close>

lemma trunc_of_int: "trunc (real_of_int k) = k"
  by (simp add: trunc_def)

lemma binary64_roundingD:
  assumes "binary64_rounding P"
  shows "ieee_rounding P"
    and "\<bar>r\<bar> \<le> 2 ^ 1023 \<Longrightarrow> round64 P (round64 P r) = round64 P r"
    and "\<bar>r\<bar> \<le> 2 ^ 1023 \<Longrightarrow> 2 ^ n \<le> \<bar>round64 P r\<bar> \<Longrightarrow> round64 P r * 2 ^ 52 / 2 ^ n \<in> \<int>"
    and "\<bar>r\<bar> \<le> 2 * 2 ^ n \<Longrightarrow> n < 1023 \<Longrightarrow> \<bar>round64 P r - r\<bar> \<le> 2 ^ n / 2 ^ 53"
  using assms unfolding binary64_rounding_def by blast+

lemma large_float64_is_integer:
  assumes B: "binary64_rounding P" and r: "\<bar>r\<bar> \<le> 2 ^ 1023"
    and big: "2 ^ 53 \<le> \<bar>round64 P r\<bar>"
  shows "real_of_int (trunc (round64 P r)) = round64 P r"
    and "round64 P (real_of_int (trunc (round64 P r))) = round64 P r"
proof -
  have "round64 P r * 2 ^ 52 / 2 ^ 53 \<in> \<int>"
    using r big by (rule binary64_roundingD(3) [OF B])
  then have "2 * (round64 P r * 2 ^ 52 / 2 ^ 53) \<in> \<int>"
    by (intro Ints_mult) simp_all
  moreover have "2 * (round64 P r * 2 ^ 52 / 2 ^ 53) = round64 P r" by simp
  ultimately have "round64 P r \<in> \<int>" by simp
  then obtain k where k: "round64 P r = real_of_int k" by (rule Ints_cases)
  show t: "real_of_int (trunc (round64 P r)) = round64 P r"
    unfolding k trunc_of_int ..
  show "round64 P (real_of_int (trunc (round64 P r))) = round64 P r"
    unfolding t by (rule binary64_roundingD(2) [OF B r])
qed

text \<open>Two integers less than two apart are at most one apart, and less than one apart they
  are equal.\<close>

lemma Ints_close:
  assumes "u \<in> \<int>" and "v \<in> \<int>"
  shows "\<bar>u - v\<bar> < 2 \<Longrightarrow> \<bar>u - v\<bar> \<le> (1::real)"
    and "\<bar>u - v\<bar> < 1 \<Longrightarrow> u = v"
proof -
  from assms obtain i j where u: "u = real_of_int i" and v: "v = real_of_int j"
    by (auto elim!: Ints_cases)
  have d: "\<bar>u - v\<bar> = real_of_int \<bar>i - j\<bar>" unfolding u v by simp
  show "\<bar>u - v\<bar> \<le> 1" if "\<bar>u - v\<bar> < 2"
  proof -
    from that have "\<bar>i - j\<bar> < 2" unfolding d by linarith
    then have "\<bar>i - j\<bar> \<le> 1" by linarith
    then show ?thesis unfolding d by linarith
  qed
  show "u = v" if "\<bar>u - v\<bar> < 1"
  proof -
    from that have "\<bar>i - j\<bar> < 1" unfolding d by linarith
    then have "i = j" by linarith
    then show ?thesis unfolding u v by simp
  qed
qed

text \<open>
  Below \<open>2 ^ 53\<close> nanoseconds the integer part is a \<open>float64\<close>, and what is lost is the
  fraction of a nanosecond, the rounding of the product and the rounding of the quotient.
\<close>

lemma round_trip_small:
  assumes B: "binary64_rounding P" and r: "\<bar>r\<bar> \<le> 2 ^ 1023"
    and small: "\<bar>round64 P r\<bar> < 2 ^ 53"
  shows "\<bar>round64 P (round64 P (real_of_int (trunc (round64 P r))) / 1000000000)
          - r / 1000000000\<bar> < 1 / 10 ^ 6"
proof -
  note ieee = binary64_roundingD(1) [OF B]
  define y where "y = round64 P r"
  define d where "d = trunc y"
  define z where "z = round64 P (real_of_int d / 1000000000)"
  have ys: "\<bar>y\<bar> < 9007199254740992" using small unfolding y_def by simp
  have dy: "\<bar>real_of_int d - y\<bar> \<le> 1" and dle: "\<bar>real_of_int d\<bar> \<le> \<bar>y\<bar>"
    unfolding d_def by (rule trunc_diff, rule trunc_abs_le)
  have "real_of_int \<bar>d\<bar> < 9007199254740992" using dle ys by simp
  then have "\<bar>d\<bar> < 9007199254740992" by linarith
  then have "\<bar>d\<bar> \<le> 2 ^ 53" by simp
  with ieee have f: "round64 P (real_of_int d) = real_of_int d"
    unfolding ieee_rounding_def by blast
  have ey: "\<bar>y - r\<bar> \<le> \<bar>r\<bar> / 9007199254740992 + 1 / 1000000000000000000000000000000"
    using round64_error [OF ieee r] unfolding y_def by simp
  have rb: "\<bar>r\<bar> \<le> 9007199254740994" using ey ys by linarith
  have ey2: "\<bar>y - r\<bar> \<le> 2" using ey rb by linarith
  have "\<bar>real_of_int d / 1000000000\<bar> = \<bar>real_of_int d\<bar> / 1000000000" by simp
  also have "\<dots> \<le> 2 * 2 ^ 23" using dle ys by simp
  finally have "\<bar>z - real_of_int d / 1000000000\<bar> \<le> 2 ^ 23 / 2 ^ 53"
    unfolding z_def by (rule binary64_roundingD(4) [OF B]) simp
  then have ez: "\<bar>z - real_of_int d / 1000000000\<bar> \<le> 1 / 1073741824" by simp
  have "\<bar>z - r / 1000000000\<bar> < 1 / 1000000" using ez dy ey2 by linarith
  then show ?thesis unfolding z_def d_def y_def f [unfolded d_def y_def] by simp
qed

text \<open>
  From \<open>2 ^ 53\<close> nanoseconds on nothing is discarded, and up to \<open>2 ^ 62\<close> the rounding of the
  product costs at most 256 ns and that of the quotient at most \<open>1 / 2 ^ 21\<close> s.
\<close>

lemma round_trip_mid:
  assumes B: "binary64_rounding P" and r: "\<bar>r\<bar> \<le> 2 ^ 62"
    and big: "2 ^ 53 \<le> \<bar>round64 P r\<bar>"
  shows "\<bar>round64 P (round64 P (real_of_int (trunc (round64 P r))) / 1000000000)
          - r / 1000000000\<bar> < 1 / 10 ^ 6"
proof -
  define y where "y = round64 P r"
  define z where "z = round64 P (y / 1000000000)"
  have r1: "\<bar>r\<bar> \<le> 2 ^ 1023"
  proof -
    have "(2::real) ^ 62 \<le> 2 ^ 1023" by (rule power_increasing) simp_all
    with r show ?thesis by linarith
  qed
  have f: "round64 P (real_of_int (trunc (round64 P r))) = y"
    unfolding y_def using B r1 big by (rule large_float64_is_integer)
  have rn: "\<bar>r\<bar> \<le> 4611686018427387904" using r by simp
  have "\<bar>y - r\<bar> \<le> 2 ^ 61 / 2 ^ 53"
    unfolding y_def using r by (intro binary64_roundingD(4) [OF B]) simp_all
  then have ey: "\<bar>y - r\<bar> \<le> 256" by simp
  have "\<bar>y / 1000000000\<bar> = \<bar>y\<bar> / 1000000000" by simp
  also have "\<dots> \<le> 2 * 2 ^ 32" using ey rn by simp
  finally have "\<bar>z - y / 1000000000\<bar> \<le> 2 ^ 32 / 2 ^ 53"
    unfolding z_def by (rule binary64_roundingD(4) [OF B]) simp
  then have ez: "\<bar>z - y / 1000000000\<bar> \<le> 1 / 2097152" by simp
  have "\<bar>z - r / 1000000000\<bar> < 1 / 1000000" using ez ey by linarith
  then show ?thesis unfolding f z_def by simp
qed

text \<open>
  Between \<open>2 ^ 62\<close> and \<open>2 ^ 63\<close> nanoseconds the two roundings add up to more than a
  microsecond, but \<open>x\<close> and the result are both multiples of \<open>1 / 2 ^ 20\<close> s and less than
  two such steps apart, so they are at most one step apart.
\<close>

lemma round_trip_high:
  assumes B: "binary64_rounding P" and xr: "round64 P (r / 1000000000) = r / 1000000000"
    and lo: "2 ^ 62 < \<bar>r\<bar>" and hi: "\<bar>r\<bar> \<le> 2 ^ 63"
  shows "\<bar>round64 P (round64 P (real_of_int (trunc (round64 P r))) / 1000000000)
          - r / 1000000000\<bar> < 1 / 10 ^ 6"
proof -
  define x where "x = r / 1000000000"
  define y where "y = round64 P r"
  define z where "z = round64 P (y / 1000000000)"
  have top: "(9223372036854776320 :: real) \<le> 2 ^ 1023"
  proof -
    have "(2::real) ^ 64 \<le> 2 ^ 1023" by (rule power_increasing) simp_all
    then show ?thesis by simp
  qed
  have lo': "4611686018427387904 < \<bar>r\<bar>" and hi': "\<bar>r\<bar> \<le> 9223372036854775808"
    using lo hi by simp_all
  have r1: "\<bar>r\<bar> \<le> 2 ^ 1023" using hi' top by linarith
  have "\<bar>y - r\<bar> \<le> 2 ^ 62 / 2 ^ 53"
    unfolding y_def using hi by (intro binary64_roundingD(4) [OF B]) simp_all
  then have ey: "\<bar>y - r\<bar> \<le> 512" by simp
  have "9007199254740992 \<le> \<bar>y\<bar>" using ey lo' by linarith
  then have big: "2 ^ 53 \<le> \<bar>round64 P r\<bar>" unfolding y_def by simp
  have f: "round64 P (real_of_int (trunc (round64 P r))) = y"
    unfolding y_def using B r1 big by (rule large_float64_is_integer)
  have yc: "\<bar>y / 1000000000\<bar> = \<bar>y\<bar> / 1000000000" by simp
  have t1: "\<bar>y / 1000000000\<bar> \<le> 2 ^ 1023" unfolding yc using ey hi' top by linarith
  have "\<bar>y / 1000000000\<bar> \<le> 2 * 2 ^ 33" unfolding yc using ey hi' by simp
  then have "\<bar>z - y / 1000000000\<bar> \<le> 2 ^ 33 / 2 ^ 53"
    unfolding z_def by (rule binary64_roundingD(4) [OF B]) simp
  then have ez: "\<bar>z - y / 1000000000\<bar> \<le> 1 / 1048576" by simp
  have rx: "r = x * 1000000000" by (simp add: x_def)
  have near: "\<bar>z * 1048576 - x * 1048576\<bar> < 2" using ez ey unfolding rx by linarith
  have xlo: "4611686018 \<le> \<bar>x\<bar>" using lo' unfolding rx by linarith
  have zlo: "4294967296 \<le> \<bar>z\<bar>" using near xlo by linarith
  have x1: "\<bar>x\<bar> \<le> 2 ^ 1023" using hi' top unfolding rx by linarith
  have xr': "round64 P x = x" unfolding x_def by (rule xr)
  have "round64 P x * 2 ^ 52 / 2 ^ 32 \<in> \<int>"
  proof (rule binary64_roundingD(3) [OF B x1])
    show "2 ^ 32 \<le> \<bar>round64 P x\<bar>" unfolding xr' using xlo by simp
  qed
  then have gx: "x * 1048576 \<in> \<int>" unfolding xr' by (simp add: mult.commute)
  have "round64 P (y / 1000000000) * 2 ^ 52 / 2 ^ 32 \<in> \<int>"
  proof (rule binary64_roundingD(3) [OF B t1])
    show "2 ^ 32 \<le> \<bar>round64 P (y / 1000000000)\<bar>" using zlo unfolding z_def by simp
  qed
  then have gz: "z * 1048576 \<in> \<int>" unfolding z_def by (simp add: mult.commute)
  have "\<bar>z * 1048576 - x * 1048576\<bar> \<le> 1"
    using gz gx near by (rule Ints_close)
  then have "\<bar>z - x\<bar> < 1 / 1000000" by linarith
  then show ?thesis unfolding f z_def x_def by simp
qed

text \<open>
  A product beyond \<open>2 ^ 63\<close> in magnitude that still fits is rounded to \<open>- (2 ^ 63)\<close>. There
  \<open>x\<close> is a multiple of \<open>1 / 2 ^ 19\<close> s, which leaves one value for \<open>x\<close>, and the result
  is \<open>x\<close> itself.
\<close>

lemma round_trip_top:
  assumes B: "binary64_rounding P" and xr: "round64 P (r / 1000000000) = r / 1000000000"
    and lo: "2 ^ 63 < \<bar>r\<bar>" and hi: "\<bar>r\<bar> \<le> 2 ^ 64"
    and dge: "- (2 ^ 63) \<le> trunc (round64 P r)" and dlt: "trunc (round64 P r) < 2 ^ 63"
  shows "round64 P (round64 P (real_of_int (trunc (round64 P r))) / 1000000000)
          = r / 1000000000"
proof -
  define x where "x = r / 1000000000"
  define y where "y = round64 P r"
  define z where "z = round64 P (y / 1000000000)"
  have top: "(18446744073709551616 :: real) \<le> 2 ^ 1023"
  proof -
    have "(2::real) ^ 64 \<le> 2 ^ 1023" by (rule power_increasing) simp_all
    then show ?thesis by simp
  qed
  have lo': "9223372036854775808 < \<bar>r\<bar>" and hi': "\<bar>r\<bar> \<le> 18446744073709551616"
    using lo hi by simp_all
  have r1: "\<bar>r\<bar> \<le> 2 ^ 1023" using hi' top by linarith
  have "\<bar>y - r\<bar> \<le> 2 ^ 63 / 2 ^ 53"
    unfolding y_def using hi by (intro binary64_roundingD(4) [OF B]) simp_all
  then have ey: "\<bar>y - r\<bar> \<le> 1024" by simp
  have ylo: "9223372036854774784 < \<bar>y\<bar>" using ey lo' by linarith
  then have "9007199254740992 \<le> \<bar>y\<bar>" by linarith
  then have big: "2 ^ 53 \<le> \<bar>round64 P r\<bar>" unfolding y_def by simp
  have f: "round64 P (real_of_int (trunc (round64 P r))) = y"
    and dy: "real_of_int (trunc (round64 P r)) = y"
    unfolding y_def using B r1 big by (rule large_float64_is_integer)+
  have "trunc (round64 P r) < 9223372036854775808" using dlt by simp
  then have "real_of_int (trunc (round64 P r)) < 9223372036854775808" by linarith
  then have yhi: "y < 9223372036854775808" unfolding dy .
  have "- 9223372036854775808 \<le> trunc (round64 P r)" using dge by simp
  then have "- 9223372036854775808 \<le> real_of_int (trunc (round64 P r))" by linarith
  then have yge: "- 9223372036854775808 \<le> y" unfolding dy .
  have "4611686018427387904 \<le> \<bar>y\<bar>" using ylo by linarith
  then have "2 ^ 62 \<le> \<bar>round64 P r\<bar>" unfolding y_def by simp
  with r1 have "round64 P r * 2 ^ 52 / 2 ^ 62 \<in> \<int>"
    by (rule binary64_roundingD(3) [OF B])
  then have "y / 1024 \<in> \<int>" unfolding y_def by simp
  then obtain i where "y / 1024 = real_of_int i" by (rule Ints_cases)
  then have yi: "y = 1024 * real_of_int i" by simp
  have "real_of_int i < 9007199254740992" using yhi unfolding yi by linarith
  then have "i < 9007199254740992" by linarith
  then have "i \<le> 9007199254740991" by linarith
  then have "real_of_int i \<le> 9007199254740991" by linarith
  then have "y \<le> 9223372036854774784" unfolding yi by linarith
  then have yneg: "y < - 9223372036854774784" using ylo by linarith
  then have "real_of_int i < - 9007199254740991" unfolding yi by linarith
  then have "i < - 9007199254740991" by linarith
  moreover have "- 9007199254740992 \<le> real_of_int i" using yge unfolding yi by linarith
  then have "- 9007199254740992 \<le> i" by linarith
  ultimately have "i = - 9007199254740992" by linarith
  then have y: "y = - 9223372036854775808" unfolding yi by simp
  have rx: "r = x * 1000000000" by (simp add: x_def)
  have rneg: "r < - 9223372036854775808" and rge: "- 9223372036854776832 \<le> r"
    using ey lo' unfolding y by linarith+
  have xlo: "9223372036 \<le> \<bar>x\<bar>" using rneg unfolding rx by linarith
  have x1: "\<bar>x\<bar> \<le> 2 ^ 1023" using hi' top unfolding rx by linarith
  have xr': "round64 P x = x" unfolding x_def by (rule xr)
  have "round64 P x * 2 ^ 52 / 2 ^ 33 \<in> \<int>"
  proof (rule binary64_roundingD(3) [OF B x1])
    show "2 ^ 33 \<le> \<bar>round64 P x\<bar>" unfolding xr' using xlo by simp
  qed
  then have gx: "x * 524288 \<in> \<int>" unfolding xr' by (simp add: mult.commute)
  then obtain j where xj: "x * 524288 = real_of_int j" by (rule Ints_cases)
  have rj: "r * 1024 = real_of_int (1953125 * j)"
    unfolding rx using xj by simp
  have "real_of_int (1953125 * j) < - 9444732965739290427392"
    using rneg unfolding rj [symmetric] by linarith
  then have j1: "1953125 * j < - 9444732965739290427392" by linarith
  have "- 9444732965739291475968 \<le> real_of_int (1953125 * j)"
    using rge unfolding rj [symmetric] by linarith
  then have j2: "- 9444732965739291475968 \<le> 1953125 * j" by linarith
  have "\<not> - 4835703278458516 \<le> j" using j1 by linarith
  moreover have "\<not> j \<le> - 4835703278458518" using j2 by linarith
  ultimately have "j = - 4835703278458517" by linarith
  then have "r * 1024 = - 9444732965739291015625" unfolding rj by simp
  then have xv: "x * 1024000000000 = - 9444732965739291015625" unfolding rx by simp
  have yc: "\<bar>y / 1000000000\<bar> \<le> 2 * 2 ^ 33" unfolding y by simp
  have t1: "\<bar>y / 1000000000\<bar> \<le> 2 ^ 1023" using top unfolding y by simp
  have "\<bar>z - y / 1000000000\<bar> \<le> 2 ^ 33 / 2 ^ 53"
    unfolding z_def using yc by (rule binary64_roundingD(4) [OF B]) simp
  then have ez: "\<bar>z - y / 1000000000\<bar> \<le> 1 / 1048576" by simp
  have near: "\<bar>z * 524288 - x * 524288\<bar> < 1" using ez xv unfolding y by linarith
  have zlo: "8589934592 \<le> \<bar>z\<bar>" using near xlo by linarith
  have "round64 P (y / 1000000000) * 2 ^ 52 / 2 ^ 33 \<in> \<int>"
  proof (rule binary64_roundingD(3) [OF B t1])
    show "2 ^ 33 \<le> \<bar>round64 P (y / 1000000000)\<bar>" using zlo unfolding z_def by simp
  qed
  then have gz: "z * 524288 \<in> \<int>" unfolding z_def by (simp add: mult.commute)
  have "z * 524288 = x * 524288" using gz gx near by (rule Ints_close)
  then have "z = x" by simp
  then show ?thesis unfolding f z_def x_def .
qed

text \<open>Up to 9223372036 seconds the nanoseconds fit.\<close>

lemma fits_int64_below:
  assumes B: "binary64_rounding P" and x: "\<bar>x\<bar> \<le> 9223372036"
  shows "fits_int64 P x"
proof -
  define r where "r = x * 1000000000"
  define y where "y = round64 P r"
  have S: "float64_of_int64 P Second = 1000000000"
    by (rule float64_Second [OF binary64_roundingD(1) [OF B]])
  have rb: "\<bar>r\<bar> \<le> 9223372036000000000" using x unfolding r_def by linarith
  have "(2::real) ^ 63 \<le> 2 ^ 1023" by (rule power_increasing) simp_all
  then have r1: "\<bar>r\<bar> \<le> 2 ^ 1023" using rb by simp
  have "\<bar>r\<bar> \<le> 2 * 2 ^ 62" using rb by simp
  then have "\<bar>y - r\<bar> \<le> 2 ^ 62 / 2 ^ 53"
    unfolding y_def by (rule binary64_roundingD(4) [OF B]) simp
  then have ey: "\<bar>y - r\<bar> \<le> 512" by simp
  have "\<bar>real_of_int (trunc y)\<bar> \<le> \<bar>y\<bar>" by (rule trunc_abs_le)
  then have "\<bar>real_of_int (trunc y)\<bar> \<le> 9223372036000000512" using ey rb by linarith
  then have "\<bar>trunc y\<bar> \<le> 9223372036000000512" by linarith
  moreover have num: "(2::int) ^ 63 = 9223372036854775808" by simp
  ultimately have "- (2 ^ 63) \<le> trunc y \<and> trunc y < 2 ^ 63" unfolding num by linarith
  then show ?thesis
    using r1 unfolding fits_int64_def S fmul_def r_def [symmetric] y_def [symmetric] by simp
qed

text \<open>
  C3 (as amended). On a machine with the rounding of binary64, for every \<open>float64\<close> relative
  time \<open>x\<close> whose nanoseconds, as \<open>expandTime\<close> computes them, fit \<open>int64\<close>,
  \<open>relativeTime (expandTime x)\<close> differs from \<open>x\<close> by less than a microsecond, whatever the
  base time; and the nanoseconds fit for every \<open>x\<close> of magnitude up to 9223372036 seconds.
  Both conversions are total functions of the base time and their argument.
\<close>

theorem relativeTime_expandTime_in_range:
  assumes B: "binary64_rounding P" and xr: "round64 P x = x"
  shows "(fits_int64 P x \<longrightarrow> \<bar>relativeTime P opts (expandTime P opts x) - x\<bar> < 1 / 10 ^ 6) \<and>
         (\<bar>x\<bar> \<le> 9223372036 \<longrightarrow> fits_int64 P x)"
proof (intro conjI impI)
  assume "\<bar>x\<bar> \<le> 9223372036"
  with B show "fits_int64 P x" by (rule fits_int64_below)
next
  assume fit: "fits_int64 P x"
  note ieee = binary64_roundingD(1) [OF B]
  define r where "r = x * 1000000000"
  define y where "y = round64 P r"
  define d where "d = trunc y"
  have S: "float64_of_int64 P Second = 1000000000"
    by (rule float64_Second [OF ieee])
  have r1: "\<bar>r\<bar> \<le> 2 ^ 1023" and dge: "- (2 ^ 63) \<le> d" and dlt: "d < 2 ^ 63"
    using fit unfolding fits_int64_def S fmul_def r_def y_def d_def by simp_all
  have sd: "sint (int64_of_float64 P y) = d"
    using dge dlt unfolding d_def by (rule int64_in_range)
  have rel: "relativeTime P opts (expandTime P opts x) =
               round64 P (round64 P (real_of_int (trunc (round64 P r))) / 1000000000)"
    unfolding expand_relative_roundtrip S
    by (simp add: fmul_def fdiv_def float64_of_int64_def r_def [symmetric] y_def [symmetric] sd
        d_def [symmetric])
  have x: "x = r / 1000000000" by (simp add: r_def)
  have xr': "round64 P (r / 1000000000) = r / 1000000000" using xr unfolding x .
  have "\<bar>d\<bar> \<le> 9223372036854775808" using dge dlt by simp
  then have db: "\<bar>real_of_int d\<bar> \<le> 9223372036854775808" by linarith
  have dy: "\<bar>real_of_int d - y\<bar> \<le> 1" unfolding d_def by (rule trunc_diff)
  have ey: "\<bar>y - r\<bar> \<le> \<bar>r\<bar> / 9007199254740992 + 1 / 1000000000000000000000000000000"
    using round64_error [OF ieee r1] unfolding y_def by simp
  have "\<bar>r\<bar> \<le> 18446744073709551616" using db dy ey by linarith
  then have r64: "\<bar>r\<bar> \<le> 2 ^ 64" by simp
  consider (small) "\<bar>round64 P r\<bar> < 2 ^ 53"
    | (mid) "2 ^ 53 \<le> \<bar>round64 P r\<bar>" "\<bar>r\<bar> \<le> 2 ^ 62"
    | (high) "2 ^ 62 < \<bar>r\<bar>" "\<bar>r\<bar> \<le> 2 ^ 63"
    | (top) "2 ^ 63 < \<bar>r\<bar>"
    by linarith
  then have main: "\<bar>round64 P (round64 P (real_of_int (trunc (round64 P r))) / 1000000000)
                     - r / 1000000000\<bar> < 1 / 10 ^ 6"
  proof cases
    case small
    with B r1 show ?thesis by (rule round_trip_small)
  next
    case mid
    with B show ?thesis by (intro round_trip_mid)
  next
    case high
    with B xr' show ?thesis by (intro round_trip_high)
  next
    case top
    have "round64 P (round64 P (real_of_int (trunc (round64 P r))) / 1000000000)
            = r / 1000000000"
      using B xr' top r64 dge dlt unfolding d_def y_def by (rule round_trip_top)
    then show ?thesis by simp
  qed
  show "\<bar>relativeTime P opts (expandTime P opts x) - x\<bar> < 1 / 10 ^ 6"
    using main unfolding rel x [symmetric] .
qed

text \<open>C3's theorem at the relative time of 9223372036 seconds, on the machine that rounds to
  53 bits.\<close>

theorem relativeTime_expandTime_in_range_witness:
  "binary64_rounding binary53 \<and> round64 binary53 9223372036 = 9223372036 \<and>
   \<bar>9223372036 :: real\<bar> \<le> 9223372036 \<and> fits_int64 binary53 9223372036 \<and>
   \<bar>relativeTime binary53 zero_opts (expandTime binary53 zero_opts 9223372036) - 9223372036\<bar>
     < 1 / 10 ^ 6"
proof -
  have B: "binary64_rounding binary53" by (rule binary64_rounding_binary53)
  have "round53 (real_of_int 9223372036) = real_of_int 9223372036"
    by (rule round53_of_int) simp
  then have xr: "round64 binary53 9223372036 = 9223372036" by (simp add: binary53_def)
  have le: "\<bar>9223372036 :: real\<bar> \<le> 9223372036" by simp
  from relativeTime_expandTime_in_range [OF B xr, of zero_opts] B xr le
  show ?thesis by blast
qed

text \<open>The round trip is not the identity even without rounding: a quarter of a nanosecond
  comes back as zero.\<close>

lemma relativeTime_expandTime_truncates:
  "relativeTime exact zero_opts (expandTime exact zero_opts (1 / 4000000000)) = 0"
  unfolding expand_relative_roundtrip
  by (simp add: exact_def fmul_def fdiv_def float64_of_int64_def Second_def
      int64_of_float64_def trunc_def)

text \<open>
  C3 as it is stated fails for large finite times. At \<open>x = 10 ^ 10\<close> seconds the product
  \<open>10 ^ 19\<close> is a \<open>float64\<close> (no rounding happens) and is beyond the greatest \<open>int64\<close>,
  so the conversion yields what the implementation chooses; whatever that is, it is an
  \<open>int64\<close>, and the time that comes back is below \<open>9223372037\<close> seconds, more than
  \<open>776627963\<close> seconds away from \<open>x\<close>.
\<close>

theorem relativeTime_expandTime_overflow:
  "\<forall>ov. ieee_rounding (exact\<lparr>overflow64 := ov\<rparr>) \<and>
        776627963 < \<bar>relativeTime (exact\<lparr>overflow64 := ov\<rparr>) zero_opts
                         (expandTime (exact\<lparr>overflow64 := ov\<rparr>) zero_opts 10000000000)
                       - 10000000000\<bar>"
proof (intro allI conjI)
  fix ov :: "float64 \<Rightarrow> 64 word"
  let ?P = "exact\<lparr>overflow64 := ov\<rparr>"
  show "ieee_rounding ?P" by (rule ieee_rounding_exact)
  have t: "trunc 10000000000000000000 = 10000000000000000000"
    by (simp add: trunc_def)
  have ro: "round64 ?P = (\<lambda>r. r)" and ov: "overflow64 ?P = ov"
    by (simp_all add: exact_def)
  have c: "int64_of_float64 ?P 10000000000000000000 = ov 10000000000000000000"
    by (simp add: int64_of_float64_def t ov)
  have s: "float64_of_int64 ?P Second = 1000000000"
    by (simp add: float64_of_int64_def ro Second_def)
  have m: "fmul ?P 10000000000 1000000000 = 10000000000000000000"
    by (simp add: fmul_def ro)
  define k where "k = sint (ov 10000000000000000000)"
  have r: "relativeTime ?P zero_opts (expandTime ?P zero_opts 10000000000) =
        real_of_int k / 1000000000"
    unfolding expand_relative_roundtrip s m c k_def
    by (simp add: fdiv_def float64_of_int64_def ro)
  have "k < 9223372036854775808"
    unfolding k_def using sint_lt [of "ov 10000000000000000000"] by simp
  then have "real_of_int k < 9223372036854775808"
    by linarith
  then show "776627963 < \<bar>relativeTime ?P zero_opts (expandTime ?P zero_opts 10000000000)
                       - 10000000000\<bar>"
    unfolding r by linarith
qed

section \<open>Reconciliation\<close>

text \<open>\<open>consume\<close> finds nothing only when the pool has no candidate, and what it finds is
  the first candidate; the pool loses that member and no other.\<close>

lemma consume_None: "consume p pool = None \<Longrightarrow> \<forall>x\<in>set pool. \<not> p x"
  by (induction pool) (auto split: if_splits option.splits)

lemma consume_Some:
  "consume p pool = Some (x, rest) \<Longrightarrow>
     \<exists>ys zs. pool = ys @ x # zs \<and> rest = ys @ zs \<and> p x \<and> (\<forall>y\<in>set ys. \<not> p y)"
proof (induction pool arbitrary: rest)
  case Nil
  then show ?case by simp
next
  case (Cons a pool)
  show ?case
  proof (cases "p a")
    case True
    with Cons.prems have "x = a" "rest = pool" by simp_all
    with True show ?thesis by (intro exI [of _ "[]"] exI [of _ pool]) simp
  next
    case False
    with Cons.prems obtain r where r: "consume p pool = Some (x, r)" "rest = a # r"
      by (auto split: option.splits)
    from Cons.IH [OF r(1)] obtain ys zs where
      "pool = ys @ x # zs" "r = ys @ zs" "p x" "\<forall>y\<in>set ys. \<not> p y" by blast
    with False r(2) show ?thesis
      by (intro exI [of _ "a # ys"] exI [of _ zs]) simp
  qed
qed

lemma used_set: "i \<in> set (used ms) \<longleftrightarrow> (\<exists>e x. (e, Some x) \<in> set ms \<and> fst x = i)"
  by (induction ms rule: used.induct) (simp, simp, force)

text \<open>
  The mapping over a pool of distinctly numbered observations: every expectation is mapped,
  the numbers used and the numbers left are all different, an observation that is used is
  a candidate for its expectation, and an expectation that is mapped to nothing has no
  candidate among the observations left.
\<close>

lemma match_in_order_sound:
  assumes "match_in_order tol es pool = (ms, rest)" and "distinct (map fst pool)"
  shows "map fst ms = es \<and>
         distinct (used ms @ map fst rest) \<and>
         set rest \<subseteq> set pool \<and>
         (\<forall>e x. (e, Some x) \<in> set ms \<longrightarrow> x \<in> set pool \<and> candidate tol e (snd x)) \<and>
         (\<forall>e. (e, None) \<in> set ms \<longrightarrow> (\<forall>x\<in>set rest. \<not> candidate tol e (snd x)))"
  using assms
proof (induction es arbitrary: pool ms rest)
  case Nil
  then show ?case by simp
next
  case (Cons e es)
  show ?case
  proof (cases "consume (\<lambda>x. candidate tol e (snd x)) pool")
    case None
    obtain ms1 r1 where m: "match_in_order tol es pool = (ms1, r1)"
      by (cases "match_in_order tol es pool")
    with Cons.prems(1) None have eq: "ms = (e, None) # ms1" "rest = r1" by simp_all
    from Cons.IH [OF m Cons.prems(2)] have ih:
      "map fst ms1 = es" "distinct (used ms1 @ map fst r1)" "set r1 \<subseteq> set pool"
      "\<forall>e x. (e, Some x) \<in> set ms1 \<longrightarrow> x \<in> set pool \<and> candidate tol e (snd x)"
      "\<forall>e. (e, None) \<in> set ms1 \<longrightarrow> (\<forall>x\<in>set r1. \<not> candidate tol e (snd x))"
      by simp_all
    from consume_None [OF None] ih(3) have "\<forall>x\<in>set r1. \<not> candidate tol e (snd x)"
      by blast
    with ih show ?thesis unfolding eq by auto
  next
    case (Some a)
    obtain x pool' where a: "a = (x, pool')" by (cases a)
    obtain ms1 r1 where m: "match_in_order tol es pool' = (ms1, r1)"
      by (cases "match_in_order tol es pool'")
    with Cons.prems(1) Some a have eq: "ms = (e, Some x) # ms1" "rest = r1" by simp_all
    from consume_Some [OF Some [unfolded a]] obtain ys zs where
      dec: "pool = ys @ x # zs" "pool' = ys @ zs" "candidate tol e (snd x)" by blast
    from Cons.prems(2) dec have d': "distinct (map fst pool')"
      and nx: "fst x \<notin> fst ` set pool'" and sub: "set pool' \<subseteq> set pool" and xin: "x \<in> set pool"
      by auto
    from Cons.IH [OF m d'] have ih:
      "map fst ms1 = es" "distinct (used ms1 @ map fst r1)" "set r1 \<subseteq> set pool'"
      "\<forall>e x. (e, Some x) \<in> set ms1 \<longrightarrow> x \<in> set pool' \<and> candidate tol e (snd x)"
      "\<forall>e. (e, None) \<in> set ms1 \<longrightarrow> (\<forall>x\<in>set r1. \<not> candidate tol e (snd x))"
      by simp_all
    have "fst x \<notin> set (used ms1)"
    proof
      assume "fst x \<in> set (used ms1)"
      then obtain e' y where "(e', Some y) \<in> set ms1" "fst y = fst x"
        unfolding used_set by blast
      with ih(4) have "y \<in> set pool'" by blast
      then have "fst y \<in> fst ` set pool'" by (rule imageI)
      with \<open>fst y = fst x\<close> nx show False by simp
    qed
    moreover have "fst x \<notin> fst ` set r1"
      using ih(3) nx by auto
    ultimately have "distinct (used ms @ map fst rest)"
      using ih(2) unfolding eq by simp
    moreover have "\<forall>e' y. (e', Some y) \<in> set ms \<longrightarrow> y \<in> set pool \<and> candidate tol e' (snd y)"
      using ih(4) sub xin dec(3) unfolding eq by auto
    ultimately show ?thesis
      using ih(1,3,5) sub unfolding eq by auto
  qed
qed

lemma match_in_order_counts:
  "match_in_order tol es pool = (ms, rest) \<Longrightarrow>
     length (used ms) + length rest = length pool \<and>
     length (used ms) + length (filter (\<lambda>m. snd m = None) ms) = length es"
proof (induction es arbitrary: pool ms rest)
  case Nil
  then show ?case by simp
next
  case (Cons e es)
  show ?case
  proof (cases "consume (\<lambda>x. candidate tol e (snd x)) pool")
    case None
    obtain ms1 r1 where m: "match_in_order tol es pool = (ms1, r1)"
      by (cases "match_in_order tol es pool")
    with Cons.prems None have "ms = (e, None) # ms1" "rest = r1" by simp_all
    with Cons.IH [OF m] show ?thesis by simp
  next
    case (Some a)
    obtain x pool' where a: "a = (x, pool')" by (cases a)
    obtain ms1 r1 where m: "match_in_order tol es pool' = (ms1, r1)"
      by (cases "match_in_order tol es pool'")
    with Cons.prems Some a have eq: "ms = (e, Some x) # ms1" "rest = r1" by simp_all
    from consume_Some [OF Some [unfolded a]] have "length pool = Suc (length pool')"
      by auto
    with Cons.IH [OF m] show ?thesis unfolding eq by simp
  qed
qed

text \<open>
  C7. In a reconciliation, every expectation is mapped once, in ascending order of
  \<open>earliest\<close>. An expectation is satisfied by an observation of the collector that is a
  candidate for it: equal batch, observed within the interval widened by the tolerance. No
  observation satisfies two expectations: the numbers of the observations used are all
  different. An expectation reported unsatisfied has no candidate among the observations
  left over. So every observation satisfies one expectation or is left over, and with two
  expectations and one observation (in particular two expectations for the same batch at
  intervals that do not overlap, and one observation of that batch) at most one expectation
  is satisfied and at least one is reported unsatisfied.
\<close>

theorem reconcile_uses_each_observation_once:
  fixes exps :: "'a expectation list" and e1 e2 :: "'a expectation"
  shows
  "map fst (matches (reconcile tol exps obs)) = sort_key ex_earliest exps \<and>
   (\<forall>e i ob. (e, Some (i, ob)) \<in> set (matches (reconcile tol exps obs)) \<longrightarrow>
        i < length obs \<and> obs ! i = ob \<and> candidate tol e ob) \<and>
   distinct (used (matches (reconcile tol exps obs))) \<and>
   (\<forall>e. (e, None) \<in> set (matches (reconcile tol exps obs)) \<longrightarrow>
        (\<forall>ob \<in> set (extras (reconcile tol exps obs)). \<not> candidate tol e ob)) \<and>
   satisfied (reconcile tol exps obs) = length (used (matches (reconcile tol exps obs))) \<and>
   unsatisfied (reconcile tol exps obs) =
     map fst (filter (\<lambda>m. snd m = None) (matches (reconcile tol exps obs))) \<and>
   satisfied (reconcile tol exps obs) + length (extras (reconcile tol exps obs)) = length obs \<and>
   satisfied (reconcile tol exps obs) + length (unsatisfied (reconcile tol exps obs)) = length exps \<and>
   satisfied (reconcile tol [e1, e2] [ob]) \<le> 1 \<and>
   1 \<le> length (unsatisfied (reconcile tol [e1, e2] [ob]))"
proof -
  have main:
    "map fst (matches (reconcile tol es os)) = sort_key ex_earliest es \<and>
     (\<forall>e i ob. (e, Some (i, ob)) \<in> set (matches (reconcile tol es os)) \<longrightarrow>
          i < length os \<and> os ! i = ob \<and> candidate tol e ob) \<and>
     distinct (used (matches (reconcile tol es os))) \<and>
     (\<forall>e. (e, None) \<in> set (matches (reconcile tol es os)) \<longrightarrow>
          (\<forall>ob \<in> set (extras (reconcile tol es os)). \<not> candidate tol e ob)) \<and>
     satisfied (reconcile tol es os) = length (used (matches (reconcile tol es os))) \<and>
     unsatisfied (reconcile tol es os) =
       map fst (filter (\<lambda>m. snd m = None) (matches (reconcile tol es os))) \<and>
     satisfied (reconcile tol es os) + length (extras (reconcile tol es os)) = length os \<and>
     satisfied (reconcile tol es os) + length (unsatisfied (reconcile tol es os)) = length es"
    for es :: "'a expectation list" and os
  proof -
    let ?pool = "enumerate 0 os"
    obtain ms rest where m: "match_in_order tol (sort_key ex_earliest es) ?pool = (ms, rest)"
      by (cases "match_in_order tol (sort_key ex_earliest es) ?pool")
    have R: "reconcile tol es os =
        \<lparr>matches = ms, satisfied = length (used ms),
         unsatisfied = map fst (filter (\<lambda>m. snd m = None) ms), extras = map snd rest\<rparr>"
      by (simp add: reconcile_def m)
    have d: "distinct (map fst ?pool)" by simp
    from match_in_order_sound [OF m d] have snd:
      "map fst ms = sort_key ex_earliest es" "distinct (used ms @ map fst rest)"
      "\<forall>e x. (e, Some x) \<in> set ms \<longrightarrow> x \<in> set ?pool \<and> candidate tol e (snd x)"
      "\<forall>e. (e, None) \<in> set ms \<longrightarrow> (\<forall>x\<in>set rest. \<not> candidate tol e (snd x))"
      by simp_all
    have a: "\<forall>e i ob. (e, Some (i, ob)) \<in> set ms \<longrightarrow> i < length os \<and> os ! i = ob \<and> candidate tol e ob"
    proof (intro allI impI)
      fix e i ob assume "(e, Some (i, ob)) \<in> set ms"
      with snd(3) have "(i, ob) \<in> set ?pool" "candidate tol e ob" by auto
      then show "i < length os \<and> os ! i = ob \<and> candidate tol e ob"
        by (simp add: in_set_enumerate_eq)
    qed
    have b: "\<forall>e. (e, None) \<in> set ms \<longrightarrow> (\<forall>ob \<in> set (map snd rest). \<not> candidate tol e ob)"
      using snd(4) by auto
    from match_in_order_counts [OF m] have c:
      "length (used ms) + length (map snd rest) = length os"
      "length (used ms) + length (map fst (filter (\<lambda>m. snd m = None) ms)) = length es"
      by simp_all
    from snd(1,2) a b c show ?thesis unfolding R by simp
  qed
  from main [of "[e1, e2]" "[ob]"] have
    "satisfied (reconcile tol [e1, e2] [ob]) + length (extras (reconcile tol [e1, e2] [ob])) =
       length [ob]"
    "satisfied (reconcile tol [e1, e2] [ob]) + length (unsatisfied (reconcile tol [e1, e2] [ob])) =
       length [e1, e2]"
    by blast+
  then have
    "satisfied (reconcile tol [e1, e2] [ob]) \<le> 1"
    "1 \<le> length (unsatisfied (reconcile tol [e1, e2] [ob]))"
    by simp_all
  with main [of exps obs] show ?thesis by blast
qed

text \<open>One observation of \<open>B\<close> at 7: the expectation at \<open>[5, 10]\<close> is satisfied by it, the
  one at \<open>[20, 30]\<close> is reported.\<close>

lemma reconcile_two_windows:
  "reconcile 0 [ex_late, ex_early] [ob_B 7] =
     \<lparr>matches = [(ex_early, Some (0, ob_B 7)), (ex_late, None)],
      satisfied = 1, unsatisfied = [ex_late], extras = []\<rparr>"
  by (simp add: reconcile_def candidate_def ex_early_def ex_late_def ob_B_def enumerate_eq_zip)

text \<open>With a tolerance that lets the one observation fall into both windows, the expectation
  with the smaller \<open>earliest\<close> consumes it and the other is reported.\<close>

lemma reconcile_one_observation_two_matching_windows:
  "reconcile 100 [ex_late, ex_early] [ob_B 25] =
     \<lparr>matches = [(ex_early, Some (0, ob_B 25)), (ex_late, None)],
      satisfied = 1, unsatisfied = [ex_late], extras = []\<rparr>"
  by (simp add: reconcile_def candidate_def ex_early_def ex_late_def ob_B_def enumerate_eq_zip)

text \<open>An observation at 15 for the window \<open>[5, 10]\<close>: unsatisfied with tolerance 0,
  satisfied with tolerance 5.\<close>

lemma reconcile_tolerance:
  "satisfied (reconcile 0 [ex_early] [ob_B 15]) = 0 \<and>
   satisfied (reconcile 5 [ex_early] [ob_B 15]) = 1"
  by (simp add: reconcile_def candidate_def ex_early_def ob_B_def enumerate_eq_zip)

text \<open>C7's theorem at the run with the wide tolerance: the observation is a candidate for
  both expectations and satisfies the earlier one only.\<close>

theorem reconcile_uses_each_observation_once_witness:
  "(ex_early, Some (0, ob_B 25)) \<in> set (matches (reconcile 100 [ex_late, ex_early] [ob_B 25])) \<and>
   (ex_late, None) \<in> set (matches (reconcile 100 [ex_late, ex_early] [ob_B 25])) \<and>
   candidate 100 ex_late (ob_B 25) \<and>
   candidate 100 ex_early (ob_B 25) \<and>
   extras (reconcile 100 [ex_late, ex_early] [ob_B 25]) = [] \<and>
   satisfied (reconcile 100 [ex_late, ex_early] [ob_B 25]) \<le> 1"
proof -
  let ?R = "reconcile 100 [ex_late, ex_early] [ob_B 25]"
  have m: "(ex_early, Some (0, ob_B 25)) \<in> set (matches ?R)" "(ex_late, None) \<in> set (matches ?R)"
    and x: "extras ?R = []"
    by (simp_all add: reconcile_one_observation_two_matching_windows)
  have c: "candidate 100 ex_late (ob_B 25)"
    by (simp add: candidate_def ex_late_def ob_B_def)
  from reconcile_uses_each_observation_once
    [of 100 "[ex_late, ex_early]" "[ob_B 25]" ex_late ex_early "ob_B 25"]
  have imp: "\<forall>e i ob. (e, Some (i, ob)) \<in> set (matches ?R) \<longrightarrow>
        i < length [ob_B 25] \<and> [ob_B 25] ! i = ob \<and> candidate 100 e ob"
    and le: "satisfied ?R \<le> 1"
    by blast+
  from imp m(1) have "candidate 100 ex_early (ob_B 25)" by blast
  with m x c le show ?thesis by blast
qed

section \<open>Firing on time and joining\<close>















end
